theory Spec2Isabelle
  imports Complex_Main
begin

section \<open>Python strings\<close>

text \<open>
  A Python \<open>str\<close> is modelled as a \<open>string\<close> whose characters are the code points
  0..255: the strings that the loader's default \<open>latin-1\<close> decoding produces. The
  character classes below are those of CPython for that range: \<open>str.isspace\<close> (used by
  \<open>strip()\<close> and the regex class \<open>\s\<close>), \<open>str.isalnum\<close> plus the underscore (the regex
  class \<open>\w\<close>), the decimal digits (\<open>\d\<close>) and \<open>str.lower\<close>.
\<close>

definition code_point :: "char \<Rightarrow> nat" where
  "code_point c = of_char c"

definition is_space :: "char \<Rightarrow> bool" where
  "is_space c = (let n = code_point c in
     (9 \<le> n \<and> n \<le> 13) \<or> (28 \<le> n \<and> n \<le> 32) \<or> n = 133 \<or> n = 160)"

definition is_decimal :: "char \<Rightarrow> bool" where
  "is_decimal c = (let n = code_point c in 48 \<le> n \<and> n \<le> 57)"

definition is_word :: "char \<Rightarrow> bool" where
  "is_word c = (let n = code_point c in
     (48 \<le> n \<and> n \<le> 57) \<or> (65 \<le> n \<and> n \<le> 90) \<or> n = 95 \<or> (97 \<le> n \<and> n \<le> 122) \<or>
     n = 170 \<or> n = 178 \<or> n = 179 \<or> n = 181 \<or> n = 185 \<or> n = 186 \<or>
     (188 \<le> n \<and> n \<le> 190) \<or> (192 \<le> n \<and> n \<le> 214) \<or> (216 \<le> n \<and> n \<le> 246) \<or>
     (248 \<le> n \<and> n \<le> 255))"

definition lower_char :: "char \<Rightarrow> char" where
  "lower_char c = (let n = code_point c in
     if (65 \<le> n \<and> n \<le> 90) \<or> (192 \<le> n \<and> n \<le> 222 \<and> n \<noteq> 215)
     then char_of (n + 32) else c)"

definition lower :: "string \<Rightarrow> string" where
  "lower s = map lower_char s"

definition strip :: "string \<Rightarrow> string" where
  "strip s = rev (dropWhile is_space (rev (dropWhile is_space s)))"

text \<open>\<open>re.sub(r'\s+', '_', s)\<close>: every maximal run of whitespace becomes one underscore.\<close>

function sub_spaces :: "string \<Rightarrow> string" where
  "sub_spaces [] = []"
| "sub_spaces (c # cs) =
     (if is_space c then CHR ''_'' # sub_spaces (dropWhile is_space cs)
      else c # sub_spaces cs)"
  by pat_completeness auto
termination
  by (relation "measure length") (auto simp: length_dropWhile_le less_Suc_eq_le)

text \<open>\<open>re.sub(r'[^\w\d_]', '', s)\<close>: a character stays when it is in one of the three classes.\<close>

definition sub_special :: "string \<Rightarrow> string" where
  "sub_special s = filter (\<lambda>c. is_word c \<or> is_decimal c \<or> c = CHR ''_'') s"

text \<open>\<open>str(n)\<close> for a non-negative integer, as the f-string of the suffix formats it.\<close>

definition digit_char :: "nat \<Rightarrow> char" where
  "digit_char d = char_of (48 + d)"

function str_nat :: "nat \<Rightarrow> string" where
  "str_nat n = (if n < 10 then [digit_char n] else str_nat (n div 10) @ [digit_char (n mod 10)])"
  by pat_completeness auto
termination
  by (relation "measure id") auto

declare str_nat.simps [simp del]

section \<open>Column Name Normalizer: \<open>FDCleaner.standardize_column_names\<close>\<close>

text \<open>The three rewriting lines of the first loop, for one column label.\<close>

definition new_col :: "string \<Rightarrow> string" where
  "new_col col = sub_special (sub_spaces (strip (lower col)))"

text \<open>
  \<open>rename_dict\<close> is a Python dict: its keys are the distinct labels in order of first
  insertion, so a label that occurs twice among the columns has one entry.
\<close>

fun dict_keys :: "string list \<Rightarrow> string list \<Rightarrow> string list" where
  "dict_keys seen [] = []"
| "dict_keys seen (c # cs) =
     (if c \<in> set seen then dict_keys seen cs else c # dict_keys (c # seen) cs)"

definition rename_dict0 :: "string list \<Rightarrow> (string \<times> string) list" where
  "rename_dict0 columns = map (\<lambda>col. (col, new_col col)) (dict_keys [] columns)"

text \<open>
  The second loop over \<open>rename_dict.items()\<close>, with the dict \<open>seen\<close>: a new name met before
  gets the suffix \<open>_k\<close>, \<open>k\<close> the stored count, which is then incremented; a new name not
  met before is stored with count 1. A suffixed name is never entered into \<open>seen\<close>.
\<close>

fun handle_duplicates :: "(string \<rightharpoonup> nat) \<Rightarrow> (string \<times> string) list \<Rightarrow> (string \<times> string) list" where
  "handle_duplicates seen [] = []"
| "handle_duplicates seen ((old_col, nc) # items) =
     (case seen nc of
        Some k \<Rightarrow> (old_col, nc @ ''_'' @ str_nat k) # handle_duplicates (seen(nc \<mapsto> k + 1)) items
      | None \<Rightarrow> (old_col, nc) # handle_duplicates (seen(nc \<mapsto> 1)) items)"

definition rename_dict :: "string list \<Rightarrow> (string \<times> string) list" where
  "rename_dict columns = handle_duplicates Map.empty (rename_dict0 columns)"

text \<open>\<open>df.rename(columns=rename_dict)\<close>: every label is looked up in the dict.\<close>

definition rename_label :: "(string \<times> string) list \<Rightarrow> string \<Rightarrow> string" where
  "rename_label d col = (case map_of d col of Some n \<Rightarrow> n | None \<Rightarrow> col)"

definition standardize_column_names :: "string list \<Rightarrow> string list" where
  "standardize_column_names columns = map (rename_label (rename_dict columns)) columns"

section \<open>Table abstraction\<close>

text \<open>
  A cell of a DataFrame: a Python \<open>int\<close>, a finite \<open>float\<close> (a \<open>VFloat q\<close> is the float
  whose exact value is the rational \<open>q\<close>), a \<open>str\<close>, or a missing value (\<open>NaN\<close>/\<open>None\<close>).
  A column has a label, a storage type and one cell per row; a table is the list of its
  columns, all of the same length. An \<open>Int64\<close> column holds ints, a \<open>Float64\<close> column
  floats and missing values, an \<open>Object\<close> column anything.
\<close>

datatype val = VInt int | VFloat rat | VStr string | VNaN

datatype dtype = Int64 | Float64 | Object

record column =
  name :: string
  dtype :: dtype
  vals :: "val list"

type_synonym table = "column list"

fun fits :: "dtype \<Rightarrow> val \<Rightarrow> bool" where
  "fits Int64 (VInt i) = True"
| "fits Int64 v = False"
| "fits Float64 (VFloat q) = True"
| "fits Float64 VNaN = True"
| "fits Float64 v = False"
| "fits Object v = True"

definition wf_column :: "column \<Rightarrow> bool" where
  "wf_column c = list_all (fits (dtype c)) (vals c)"

definition nrows :: "table \<Rightarrow> nat" where
  "nrows df = (case df of [] \<Rightarrow> 0 | c # _ \<Rightarrow> length (vals c))"

definition wf_table :: "table \<Rightarrow> bool" where
  "wf_table df = (list_all wf_column df \<and> list_all (\<lambda>c. length (vals c) = nrows df) df)"

text \<open>
  Python's \<open>==\<close> and \<open>hash\<close> on cells, as the hash tables behind \<open>drop_duplicates\<close>,
  \<open>nunique\<close> and \<open>unique\<close> and the element comparison of \<open>Series.equals\<close> use them:
  an int and a float of the same numeric value are one key, a string is never equal to
  a number, and two missing values count as equal.
\<close>

fun cell_key :: "val \<Rightarrow> val" where
  "cell_key (VInt i) = VFloat (of_int i)"
| "cell_key v = v"

definition py_eq :: "val \<Rightarrow> val \<Rightarrow> bool" where
  "py_eq a b = (cell_key a = cell_key b)"

section \<open>The libraries the cleaner calls\<close>

text \<open>
  pandas, numpy and fuzzywuzzy are not part of the repository. What the cleaner needs of
  them is taken as a parameter:
  \<^item> \<open>round2\<close>: \<open>Series.round(2)\<close> on one float;
  \<^item> \<open>extractBests query choices\<close>: \<open>process.extractBests(query, choices,
    score_cutoff=85)\<close>, the list of (choice, score) pairs it returns, in its order;
  \<^item> \<open>to_datetime cells\<close>: \<open>pd.to_datetime(series, errors='coerce')\<close>; \<open>None\<close> when the
    call raises, otherwise the parsed series by row position, \<open>None\<close> at a row being
    \<open>NaT\<close>.
  A timestamp is kept as its calendar date, all that \<open>strftime('%Y-%m-%d')\<close> reads.
\<close>

datatype timestamp = Timestamp (year: nat) (month: nat) (day: nat)

record lib =
  round2 :: "rat \<Rightarrow> rat"
  extractBests :: "string \<Rightarrow> string list \<Rightarrow> (string \<times> nat) list"
  to_datetime :: "val list \<Rightarrow> (nat \<Rightarrow> timestamp option) option"

definition zero_pad :: "nat \<Rightarrow> string \<Rightarrow> string" where
  "zero_pad w s = replicate (w - length s) CHR ''0'' @ s"

definition strftime :: "timestamp \<Rightarrow> string" where
  "strftime t = zero_pad 4 (str_nat (year t)) @ ''-'' @ zero_pad 2 (str_nat (month t)) @ ''-'' @
     zero_pad 2 (str_nat (day t))"

section \<open>The cleaning pipeline: \<open>FDCleaner.clean_data\<close>\<close>

subsection \<open>Step 1: remove duplicate rows\<close>

definition rows :: "table \<Rightarrow> val list list" where
  "rows df = map (\<lambda>i. map (\<lambda>c. vals c ! i) df) [0..<nrows df]"

text \<open>\<open>DataFrame.duplicated()\<close>: a row is marked when an earlier row has the same keys.\<close>

fun duplicated :: "val list list \<Rightarrow> val list list \<Rightarrow> bool list" where
  "duplicated seen [] = []"
| "duplicated seen (r # rs) =
     (map cell_key r \<in> set seen) # duplicated (map cell_key r # seen) rs"

definition select_rows :: "bool list \<Rightarrow> 'a list \<Rightarrow> 'a list" where
  "select_rows keep xs = map snd (filter fst (zip keep xs))"

definition drop_duplicates :: "table \<Rightarrow> table" where
  "drop_duplicates df =
     (let keep = map Not (duplicated [] (rows df))
      in map (\<lambda>c. c\<lparr>vals := select_rows keep (vals c)\<rparr>) df)"

subsection \<open>Step 2: fill missing values\<close>

definition null :: string where
  "null = ''null''"

definition isna_any :: "column \<Rightarrow> bool" where
  "isna_any c = (VNaN \<in> set (vals c))"

definition fillna :: "val \<Rightarrow> val" where
  "fillna v = (if v = VNaN then VStr null else v)"

definition is_numeric_dtype :: "column \<Rightarrow> bool" where
  "is_numeric_dtype c = (dtype c = Int64 \<or> dtype c = Float64)"

definition fill_missing_col :: "column \<Rightarrow> column" where
  "fill_missing_col c =
     (if isna_any c then
        (if is_numeric_dtype c then c\<lparr>dtype := Object, vals := map fillna (vals c)\<rparr>
         else c\<lparr>vals := map fillna (vals c)\<rparr>)
      else c)"

definition fill_missing :: "table \<Rightarrow> table" where
  "fill_missing df = map fill_missing_col df"

subsection \<open>Step 3: standardize formats\<close>

definition text_cols :: "table \<Rightarrow> string list" where
  "text_cols df = map name (filter (\<lambda>c. dtype c = Object) df)"

definition lower_strip :: "val \<Rightarrow> val" where
  "lower_strip x = (case x of VStr s \<Rightarrow> (if s \<noteq> null then VStr (strip (lower s)) else x) | _ \<Rightarrow> x)"

definition standardize_text_col :: "column \<Rightarrow> column" where
  "standardize_text_col c = (if vals c \<noteq> [] then c\<lparr>vals := map lower_strip (vals c)\<rparr> else c)"

definition standardize_text :: "string list \<Rightarrow> table \<Rightarrow> table" where
  "standardize_text tcols df = map (\<lambda>c. if name c \<in> set tcols then standardize_text_col c else c) df"

fun starts_with :: "string \<Rightarrow> string \<Rightarrow> bool" where
  "starts_with [] s = True"
| "starts_with (t # ts) [] = False"
| "starts_with (t # ts) (c # cs) = (t = c \<and> starts_with ts cs)"

text \<open>\<open>term in s\<close> on strings.\<close>

fun contains :: "string \<Rightarrow> string \<Rightarrow> bool" where
  "contains t [] = (t = [])"
| "contains t (c # cs) = (starts_with t (c # cs) \<or> contains t cs)"

definition is_date_col :: "string \<Rightarrow> bool" where
  "is_date_col col = list_ex (\<lambda>t. contains t (lower col)) [''date'', ''time'', ''_at'']"

text \<open>
  \<open>temp_col.notna().mean() > 0.8\<close> is decided on the counts: the mean is the quotient of
  the number of parsed rows by the number of rows, and for fewer than \<open>2^50\<close> rows the
  float comparison agrees with \<open>5 * parsed > 4 * rows\<close>. The mean of no rows is \<open>NaN\<close>,
  which is not greater than 0.8. Writing strings into a numeric column makes it an
  \<open>Object\<close> column. A raise of \<open>to_datetime\<close> is swallowed by the bare \<open>except\<close>.
\<close>

definition notna_count :: "(nat \<Rightarrow> timestamp option) \<Rightarrow> nat \<Rightarrow> nat" where
  "notna_count temp n = length (filter (\<lambda>i. temp i \<noteq> None) [0..<n])"

definition format_date_cell :: "(nat \<Rightarrow> timestamp option) \<Rightarrow> val list \<Rightarrow> nat \<Rightarrow> val" where
  "format_date_cell temp vs i = (case temp i of Some t \<Rightarrow> VStr (strftime t) | None \<Rightarrow> vs ! i)"

definition format_date_col :: "lib \<Rightarrow> column \<Rightarrow> column" where
  "format_date_col L c =
     (case to_datetime L (vals c) of
        None \<Rightarrow> c
      | Some temp \<Rightarrow>
          (let n = length (vals c) in
           if 4 * n < 5 * notna_count temp n
           then c\<lparr>dtype := Object, vals := map (format_date_cell temp (vals c)) [0..<n]\<rparr>
           else c))"

definition format_dates :: "lib \<Rightarrow> table \<Rightarrow> table" where
  "format_dates L df = map (\<lambda>c. if is_date_col (name c) then format_date_col L c else c) df"

definition round_cell :: "lib \<Rightarrow> val \<Rightarrow> val" where
  "round_cell L v = (case v of VFloat q \<Rightarrow> VFloat (round2 L q) | _ \<Rightarrow> v)"

definition round_floats :: "lib \<Rightarrow> table \<Rightarrow> table" where
  "round_floats L df =
     map (\<lambda>c. if dtype c = Float64 then c\<lparr>vals := map (round_cell L) (vals c)\<rparr> else c) df"

subsection \<open>Step 4: fix inconsistent values\<close>

text \<open>\<open>Series.nunique()\<close>: the number of distinct keys among the cells that are not missing.\<close>

definition nunique :: "column \<Rightarrow> nat" where
  "nunique c = length (remdups (map cell_key (filter (\<lambda>v. v \<noteq> VNaN) (vals c))))"

definition is_cat_col :: "string list \<Rightarrow> column \<Rightarrow> bool" where
  "is_cat_col tcols c = (name c \<in> set tcols \<and> 1 < nunique c \<and> nunique c < 50)"

text \<open>\<open>Series.unique()\<close>: one cell per key, in order of first appearance.\<close>

fun py_unique :: "val list \<Rightarrow> val list \<Rightarrow> val list" where
  "py_unique seen [] = []"
| "py_unique seen (v # vs) =
     (if cell_key v \<in> set seen then py_unique seen vs else v # py_unique (cell_key v # seen) vs)"

fun non_null_strs :: "val list \<Rightarrow> string list" where
  "non_null_strs [] = []"
| "non_null_strs (VStr s # vs) = (if s \<noteq> null then s # non_null_strs vs else non_null_strs vs)"
| "non_null_strs (v # vs) = non_null_strs vs"

definition unique_vals :: "column \<Rightarrow> string list" where
  "unique_vals c = non_null_strs (py_unique [] (filter (\<lambda>v. v \<noteq> VNaN) (vals c)))"

text \<open>
  \<open>counts = self.df[col].value_counts()\<close> maps a value to the number of rows holding it;
  \<open>counts.loc[similar]\<close> raises \<open>KeyError\<close> when a label is not a value of the column, and
  \<open>idxmax()\<close> returns the first label that carries the maximum.
\<close>

definition value_count :: "column \<Rightarrow> string \<Rightarrow> nat" where
  "value_count c s = count_list (vals c) (VStr s)"

definition counts_loc :: "column \<Rightarrow> string list \<Rightarrow> (string \<times> nat) list option" where
  "counts_loc c similar =
     (if list_all (\<lambda>s. 0 < value_count c s) similar
      then Some (map (\<lambda>s. (s, value_count c s)) similar) else None)"

fun first_max :: "string \<times> nat \<Rightarrow> (string \<times> nat) list \<Rightarrow> string" where
  "first_max best [] = fst best"
| "first_max best (p # ps) = first_max (if snd best < snd p then p else best) ps"

fun idxmax :: "(string \<times> nat) list \<Rightarrow> string option" where
  "idxmax [] = None"
| "idxmax (p # ps) = Some (first_max p ps)"

text \<open>The \<open>try\<close>/\<open>except\<close> that picks \<open>standard\<close>; \<open>similar\<close> has more than one member here.\<close>

definition choose_standard :: "column \<Rightarrow> string list \<Rightarrow> string" where
  "choose_standard c similar =
     (case Option.bind (counts_loc c similar) idxmax of
        Some standard \<Rightarrow> standard
      | None \<Rightarrow> hd similar)"

text \<open>
  The dict \<open>changes\<close> is an association list whose first entry for a key is the current
  one (a store prepends); \<open>processed\<close> is a set. One run of the body of
  \<open>for val in unique_vals\<close>:
\<close>

definition map_to_standard ::
  "string \<Rightarrow> string list \<Rightarrow> (string \<times> string) list \<times> string set \<Rightarrow>
   (string \<times> string) list \<times> string set" where
  "map_to_standard standard similar st =
     fold (\<lambda>match_val (changes, processed).
             if match_val \<noteq> standard
             then ((match_val, standard) # changes, insert match_val processed)
             else (changes, processed)) similar st"

definition consolidate_step ::
  "lib \<Rightarrow> column \<Rightarrow> string list \<Rightarrow> string \<Rightarrow> (string \<times> string) list \<times> string set \<Rightarrow>
   (string \<times> string) list \<times> string set" where
  "consolidate_step L c uvals val st =
     (if val \<in> snd st then st
      else
        (let matches = extractBests L val uvals in
         if 1 < length matches then
           (let similar = map fst matches;
                standard = choose_standard c similar;
                (changes, processed) = map_to_standard standard similar st
            in (changes, insert standard processed))
         else st))"

definition find_changes :: "lib \<Rightarrow> column \<Rightarrow> string list \<Rightarrow> (string \<times> string) list" where
  "find_changes L c uvals = fst (fold (consolidate_step L c uvals) uvals ([], {}))"

text \<open>\<open>Series.replace(changes)\<close>: a cell equal to a key becomes the key's value, all keys at once.\<close>

definition replace_cell :: "(string \<times> string) list \<Rightarrow> val \<Rightarrow> val" where
  "replace_cell changes v =
     (case v of
        VStr s \<Rightarrow> (case map_of changes s of Some t \<Rightarrow> VStr t | None \<Rightarrow> v)
      | _ \<Rightarrow> v)"

definition consolidate_col :: "lib \<Rightarrow> column \<Rightarrow> column" where
  "consolidate_col L c =
     (let uvals = unique_vals c in
      if length uvals \<le> 1 then c
      else
        (let changes = find_changes L c uvals in
         if changes \<noteq> [] then c\<lparr>vals := map (replace_cell changes) (vals c)\<rparr> else c))"

text \<open>
  The consolidation loop runs on a column when it is among \<open>cat_cols\<close> and the
  \<open>continue\<close> for at most one usable value is not taken.
\<close>

definition consolidator_runs :: "string list \<Rightarrow> column \<Rightarrow> bool" where
  "consolidator_runs tcols c = (is_cat_col tcols c \<and> \<not> length (unique_vals c) \<le> 1)"

definition fix_inconsistent :: "lib \<Rightarrow> string list \<Rightarrow> table \<Rightarrow> table" where
  "fix_inconsistent L tcols df = map (\<lambda>c. if is_cat_col tcols c then consolidate_col L c else c) df"

subsection \<open>Step 6: remove redundant columns\<close>

text \<open>
  \<open>Series.equals\<close>: the storage types must be the same and the cells equal row by row
  (with missing values in the same places counting as equal).
\<close>

definition equals :: "column \<Rightarrow> column \<Rightarrow> bool" where
  "equals c1 c2 = (dtype c1 = dtype c2 \<and> list_all2 py_eq (vals c1) (vals c2))"

fun scan_later :: "column \<Rightarrow> string list \<Rightarrow> column list \<Rightarrow> string list" where
  "scan_later col1 cols_to_drop [] = cols_to_drop"
| "scan_later col1 cols_to_drop (col2 # later) =
     scan_later col1
       (if name col1 \<notin> set cols_to_drop \<and> name col2 \<notin> set cols_to_drop \<and> equals col1 col2
        then cols_to_drop @ [name col2] else cols_to_drop) later"

fun scan_columns :: "string list \<Rightarrow> column list \<Rightarrow> string list" where
  "scan_columns cols_to_drop [] = cols_to_drop"
| "scan_columns cols_to_drop (col1 # later) = scan_columns (scan_later col1 cols_to_drop later) later"

definition cols_to_drop :: "table \<Rightarrow> string list" where
  "cols_to_drop df = scan_columns [] df"

definition remove_redundant :: "table \<Rightarrow> table" where
  "remove_redundant df = filter (\<lambda>c. name c \<notin> set (cols_to_drop df)) df"

subsection \<open>Step 8: final consistency check (read-only)\<close>

definition null_count :: "table \<Rightarrow> nat" where
  "null_count df = sum_list (map (\<lambda>c. count_list (vals c) (VStr null)) df)"

definition dupes :: "table \<Rightarrow> nat" where
  "dupes df = length (filter id (duplicated [] (rows df)))"

subsection \<open>The pipeline\<close>

text \<open>
  Steps 1 to 4 rewrite rows and cells, step 6 removes columns, and steps 5, 7 and 8 only
  read the table; \<open>before_rounding\<close> is the table that the rounding pass of step 3
  receives. A table with two columns of one label makes
  \<open>self.df[col]\<close> a DataFrame and the test \<open>if self.df[col].isna().any()\<close> of step 2 raise
  \<open>ValueError\<close>; there is no other raise that escapes.
\<close>

datatype error = ValueError

definition before_rounding :: "lib \<Rightarrow> table \<Rightarrow> table" where
  "before_rounding L df =
     (let df1 = drop_duplicates df;
          df2 = fill_missing df1;
          tcols = text_cols df2
      in format_dates L (standardize_text tcols df2))"

definition normalized :: "lib \<Rightarrow> table \<Rightarrow> table" where
  "normalized L df =
     (let tcols = text_cols (fill_missing (drop_duplicates df));
          df3 = round_floats L (before_rounding L df)
      in fix_inconsistent L tcols df3)"

definition clean_steps :: "lib \<Rightarrow> table \<Rightarrow> table" where
  "clean_steps L df = remove_redundant (normalized L df)"

definition clean_data :: "lib \<Rightarrow> table \<Rightarrow> error + table" where
  "clean_data L df =
     (if \<not> distinct (map name df) then Inl ValueError else Inr (clean_steps L df))"

text \<open>\<open>FDCleaner(df=df)\<close> renames the columns of its table; then \<open>clean_data()\<close> runs.\<close>

definition rename_columns :: "table \<Rightarrow> table" where
  "rename_columns df =
     map (\<lambda>c. c\<lparr>name := rename_label (rename_dict (map name df)) (name c)\<rparr>) df"

definition run_cleaner :: "lib \<Rightarrow> table \<Rightarrow> error + table" where
  "run_cleaner L df = clean_data L (rename_columns df)"

section \<open>Construction from a DataFrame: \<open>FDCleaner.__init__\<close>\<close>

text \<open>
  DataFrames are objects on a heap; the caller and the cleaner hold references. With a
  DataFrame given, the constructor stores a reference to a fresh copy (\<open>df.copy()\<close>
  copies the data), and every later statement of the class reads and writes the table
  through \<open>self.df\<close>, in place. Where \<open>clean_data\<close> raises, the duplicate rows have
  already been dropped from the cleaner's table.
\<close>

type_synonym addr = nat

record heap =
  objs :: "addr \<rightharpoonup> table"
  next_addr :: addr

definition wf_heap :: "heap \<Rightarrow> bool" where
  "wf_heap h = (\<forall>a. objs h a \<noteq> None \<longrightarrow> a < next_addr h)"

record fdcleaner =
  self_df :: addr

definition df_copy :: "heap \<Rightarrow> addr \<Rightarrow> (addr \<times> heap) option" where
  "df_copy h a =
     (case objs h a of
        None \<Rightarrow> None
      | Some df \<Rightarrow> Some (next_addr h, h\<lparr>objs := (objs h)(next_addr h \<mapsto> df), next_addr := next_addr h + 1\<rparr>))"

definition update_df :: "(table \<Rightarrow> table) \<Rightarrow> addr \<Rightarrow> heap \<Rightarrow> heap" where
  "update_df f a h = (case objs h a of None \<Rightarrow> h | Some df \<Rightarrow> h\<lparr>objs := (objs h)(a \<mapsto> f df)\<rparr>)"

definition init_from_df :: "heap \<Rightarrow> addr \<Rightarrow> (fdcleaner \<times> heap) option" where
  "init_from_df h df =
     (case df_copy h df of
        None \<Rightarrow> None
      | Some (a, h') \<Rightarrow> Some (\<lparr>self_df = a\<rparr>, update_df rename_columns a h'))"

definition clean_data_inplace :: "lib \<Rightarrow> fdcleaner \<Rightarrow> heap \<Rightarrow> error option \<times> heap" where
  "clean_data_inplace L self h =
     (case objs h (self_df self) of
        None \<Rightarrow> (None, h)
      | Some df \<Rightarrow>
          (case clean_data L df of
             Inl e \<Rightarrow> (Some e, update_df drop_duplicates (self_df self) h)
           | Inr df' \<Rightarrow> (None, update_df (\<lambda>_. df') (self_df self) h)))"

section \<open>Notions of the specification\<close>

text \<open>
  The canonical identifier pattern \<open>^[a-z0-9_]+$\<close> of the specification, the ASCII
  strings, and the suffix rule in closed form: the name at position \<open>i\<close> of a list of
  canonical names is kept when it did not occur before, and gets \<open>_k\<close> appended when it
  occurred \<open>k\<close> times before.
\<close>

definition ident_char :: "char \<Rightarrow> bool" where
  "ident_char c = (let n = code_point c in
     (97 \<le> n \<and> n \<le> 122) \<or> (48 \<le> n \<and> n \<le> 57) \<or> n = 95)"

definition ascii :: "string \<Rightarrow> bool" where
  "ascii s = list_all (\<lambda>c. code_point c < 128) s"

definition suffixed :: "string list \<Rightarrow> nat \<Rightarrow> string" where
  "suffixed ncs i =
     (let nc = ncs ! i; k = count_list (take i ncs) nc
      in if k = 0 then nc else nc @ ''_'' @ str_nat k)"

text \<open>The dict \<open>seen\<close> after the canonical names \<open>pre\<close> have been handled.\<close>

definition seen_of :: "string list \<Rightarrow> (string \<rightharpoonup> nat)" where
  "seen_of pre = (\<lambda>n. if count_list pre n = 0 then None else Some (count_list pre n))"

definition canonical_identifier :: "string \<Rightarrow> bool" where
  "canonical_identifier s = (s \<noteq> [] \<and> list_all ident_char s)"

text \<open>
  A date candidate in the words of the specification: the name contains \<open>date\<close> or
  \<open>time\<close>, or ends with \<open>_at\<close>. The parse rate over the non-sentinel values of a column
  exceeds 80% when, among the rows that do not hold the sentinel, five times the parsed
  ones are more than four times all of them.
\<close>

definition ends_with :: "string \<Rightarrow> string \<Rightarrow> bool" where
  "ends_with t s = (length t \<le> length s \<and> drop (length s - length t) s = t)"

definition date_candidate :: "string \<Rightarrow> bool" where
  "date_candidate col =
     (contains ''date'' (lower col) \<or> contains ''time'' (lower col) \<or> ends_with ''_at'' (lower col))"

definition non_sentinel_rate_exceeds :: "(nat \<Rightarrow> timestamp option) \<Rightarrow> val list \<Rightarrow> bool" where
  "non_sentinel_rate_exceeds temp cells =
     (let rows = filter (\<lambda>i. cells ! i \<noteq> VStr null) [0..<length cells]
      in 4 * length rows < 5 * length (filter (\<lambda>i. temp i \<noteq> None) rows))"

text \<open>The number of distinct values of a column that are neither missing nor the sentinel.\<close>

definition distinct_non_sentinel :: "column \<Rightarrow> nat" where
  "distinct_non_sentinel c =
     length (remdups (map cell_key (filter (\<lambda>v. v \<noteq> VNaN \<and> v \<noteq> VStr null) (vals c))))"

section \<open>A reference instance of the libraries\<close>

text \<open>
  Concrete inputs need concrete library results. The instance below is used only to
  evaluate the pipeline on examples; every example is chosen so that the instance
  returns there what the libraries return:
  \<^item> rounding to two decimals with ties to even, in exact arithmetic (numpy rounds
    \<open>x * 100\<close> to the nearest integer, ties to even, and divides by 100; the examples
    use floats for which both operations are exact);
  \<^item> the scorer of the fuzzy matcher restricted to the strings of the examples (100 for
    equal strings, 88 for \<open>new york\<close> against \<open>new yrok\<close>, below the cutoff otherwise),
    and \<open>extractBests\<close> on top of it: the choices scoring at least 85, best first, equal
    scores in the order of the choices, at most five;
  \<^item> date parsing of strings of the forms \<open>YYYY-MM-DD\<close> and \<open>YYYY/MM/DD\<close>; every other
    cell is \<open>NaT\<close>, and the call never raises.
\<close>

definition round_half_even :: "rat \<Rightarrow> int" where
  "round_half_even x =
     (let f = \<lfloor>x\<rfloor>; d = x - of_int f
      in if d < 1 / 2 then f else if 1 / 2 < d then f + 1 else if even f then f else f + 1)"

definition ref_round2 :: "rat \<Rightarrow> rat" where
  "ref_round2 q = of_int (round_half_even (q * 100)) / 100"

definition ref_score :: "string \<Rightarrow> string \<Rightarrow> nat" where
  "ref_score a b =
     (if a = b then 100
      else if (a = ''new york'' \<and> b = ''new yrok'') \<or> (a = ''new yrok'' \<and> b = ''new york'') then 88
      else 0)"

definition ref_extractBests :: "string \<Rightarrow> string list \<Rightarrow> (string \<times> nat) list" where
  "ref_extractBests query choices =
     take 5 (sort_key (\<lambda>m. 100 - snd m)
       (filter (\<lambda>m. 85 \<le> snd m) (map (\<lambda>c. (c, ref_score query c)) choices)))"

definition digits_to_nat :: "string \<Rightarrow> nat" where
  "digits_to_nat s = foldl (\<lambda>n c. 10 * n + (code_point c - 48)) 0 s"

definition parse_date :: "string \<Rightarrow> timestamp option" where
  "parse_date s =
     (if length s = 10 \<and> list_all is_decimal (take 4 s) \<and> list_all is_decimal (take 2 (drop 5 s)) \<and>
         list_all is_decimal (drop 8 s) \<and> s ! 4 = s ! 7 \<and> (s ! 4 = CHR ''-'' \<or> s ! 4 = CHR ''/'')
      then Some (Timestamp (digits_to_nat (take 4 s)) (digits_to_nat (take 2 (drop 5 s)))
                   (digits_to_nat (drop 8 s)))
      else None)"

definition ref_to_datetime :: "val list \<Rightarrow> (nat \<Rightarrow> timestamp option) option" where
  "ref_to_datetime cells =
     Some (\<lambda>i. if i < length cells
                then (case cells ! i of VStr s \<Rightarrow> parse_date s | _ \<Rightarrow> None) else None)"

definition ref_lib :: lib where
  "ref_lib = \<lparr>round2 = ref_round2, extractBests = ref_extractBests, to_datetime = ref_to_datetime\<rparr>"

text \<open>
  The column at position \<open>j\<close> is redundant when an earlier column of the table is
  identical to it in the sense of \<open>equals\<close>; \<open>earlier_equal\<close> collects the labels of the
  redundant columns.
\<close>

definition redundant_at :: "table \<Rightarrow> nat \<Rightarrow> bool" where
  "redundant_at df j = list_ex (\<lambda>c. equals c (df ! j)) (take j df)"

definition earlier_equal :: "column list \<Rightarrow> string set" where
  "earlier_equal cols = {name (cols ! j) | i j. i < j \<and> j < length cols \<and> equals (cols ! i) (cols ! j)}"

text \<open>
  An example column for the band of the Value Consolidator: 49 distinct strings, two of
  them near-duplicates of each other, and the sentinel.
\<close>

definition wide_column :: column where
  "wide_column = \<lparr>name = ''city'', dtype = Object, vals =
    [VStr ''v01'', VStr ''v02'', VStr ''v03'', VStr ''v04'', VStr ''v05'', VStr ''v06'',
      VStr ''v07'', VStr ''v08'', VStr ''v09'', VStr ''v10'', VStr ''v11'', VStr ''v12'',
      VStr ''v13'', VStr ''v14'', VStr ''v15'', VStr ''v16'', VStr ''v17'', VStr ''v18'',
      VStr ''v19'', VStr ''v20'', VStr ''v21'', VStr ''v22'', VStr ''v23'', VStr ''v24'',
      VStr ''v25'', VStr ''v26'', VStr ''v27'', VStr ''v28'', VStr ''v29'', VStr ''v30'',
      VStr ''v31'', VStr ''v32'', VStr ''v33'', VStr ''v34'', VStr ''v35'', VStr ''v36'',
      VStr ''v37'', VStr ''v38'', VStr ''v39'', VStr ''v40'', VStr ''v41'', VStr ''v42'',
      VStr ''v43'', VStr ''v44'', VStr ''v45'', VStr ''v46'', VStr ''v47'', VStr ''new york'',
      VStr ''new yrok'', VStr ''null'']\<rparr>"

section \<open>Properties of the Column Name Normalizer\<close>

lemma seen_of_snoc:
  "seen_of (pre @ [n]) = (seen_of pre)(n \<mapsto> count_list pre n + 1)"
  by (rule ext) (simp add: seen_of_def)

lemma dict_keys_distinct:
  "distinct cs \<Longrightarrow> set cs \<inter> set seen = {} \<Longrightarrow> dict_keys seen cs = cs"
  by (induction cs arbitrary: seen) auto

lemma handle_duplicates_length [simp]:
  "length (handle_duplicates seen items) = length items"
  by (induction items arbitrary: seen) (auto split: option.splits)

lemma handle_duplicates_fst [simp]:
  "map fst (handle_duplicates seen items) = map fst items"
  by (induction items arbitrary: seen) (auto split: option.splits)

lemma handle_duplicates_nth:
  "i < length items \<Longrightarrow>
   snd (handle_duplicates (seen_of pre) items ! i) =
     (let nc = snd (items ! i); k = count_list (pre @ map snd (take i items)) nc
      in if k = 0 then nc else nc @ ''_'' @ str_nat k)"
proof (induction items arbitrary: pre i)
  case Nil
  then show ?case by simp
next
  case (Cons item items)
  obtain old nc where item: "item = (old, nc)" by (cases item)
  have step: "handle_duplicates (seen_of pre) (item # items) =
      (old, if count_list pre nc = 0 then nc else nc @ ''_'' @ str_nat (count_list pre nc)) #
      handle_duplicates (seen_of (pre @ [nc])) items"
    by (simp add: item seen_of_snoc) (simp add: seen_of_def)
  show ?case
  proof (cases i)
    case 0
    then show ?thesis unfolding step by (simp add: item Let_def)
  next
    case (Suc j)
    with Cons.prems have "j < length items" by simp
    from Cons.IH [OF this, of "pre @ [nc]"] show ?thesis
      unfolding step by (simp add: Suc item)
  qed
qed

lemma map_of_nth_distinct:
  "distinct (map fst xs) \<Longrightarrow> i < length xs \<Longrightarrow> map_of xs (fst (xs ! i)) = Some (snd (xs ! i))"
  by (metis map_of_eq_Some_iff nth_mem prod.collapse)

lemma standardize_nth:
  assumes "distinct columns" and "i < length columns"
  shows "standardize_column_names columns ! i = suffixed (map new_col columns) i"
proof -
  let ?items = "map (\<lambda>col. (col, new_col col)) columns"
  let ?d = "handle_duplicates Map.empty ?items"
  have keys: "dict_keys [] columns = columns"
    using assms(1) by (simp add: dict_keys_distinct)
  have d: "rename_dict columns = ?d"
    by (simp add: rename_dict_def rename_dict0_def keys)
  have fst: "map fst ?d = columns"
    by (simp add: comp_def)
  have len: "i < length ?d" using assms(2) by simp
  have "map fst ?d ! i = fst (?d ! i)"
    using len by (rule nth_map)
  then have "fst (?d ! i) = columns ! i"
    by (simp only: fst)
  moreover have "distinct (map fst ?d)" using fst assms(1) by simp
  ultimately have look: "map_of ?d (columns ! i) = Some (snd (?d ! i))"
    using map_of_nth_distinct [of ?d i] len by simp
  have empty: "Map.empty = seen_of []" by (rule ext) (simp add: seen_of_def)
  have "snd (?d ! i) = suffixed (map new_col columns) i"
    using handle_duplicates_nth [of i ?items "[]"] assms(2)
    by (simp add: empty suffixed_def Let_def take_map comp_def)
  then show ?thesis
    using assms(2) look by (simp add: standardize_column_names_def d rename_label_def)
qed

lemma set_sub_spaces: "set (sub_spaces s) \<subseteq> insert CHR ''_'' (set s)"
proof (induction s rule: sub_spaces.induct)
  case 1
  then show ?case by simp
next
  case (2 c cs)
  show ?case
  proof (cases "is_space c")
    case True
    with 2 have "set (sub_spaces (dropWhile is_space cs)) \<subseteq> insert CHR ''_'' (set (dropWhile is_space cs))"
      by simp
    moreover have "set (dropWhile is_space cs) \<subseteq> set cs"
      by (auto dest: set_dropWhileD)
    ultimately show ?thesis using True by auto
  next
    case False
    with 2 show ?thesis by auto
  qed
qed

lemma set_strip: "set (strip s) \<subseteq> set s"
  by (auto simp: strip_def dest!: set_dropWhileD)

lemma underscore_word: "is_word CHR ''_''"
  by (simp add: is_word_def code_point_def)

lemma decimal_word: "is_decimal c \<Longrightarrow> is_word c"
  by (auto simp: is_word_def is_decimal_def Let_def)

lemma new_col_chars:
  "c \<in> set (new_col s) \<Longrightarrow> is_word c \<and> (c = CHR ''_'' \<or> c \<in> lower_char ` set s)"
proof -
  assume c: "c \<in> set (new_col s)"
  then have w: "is_word c"
    by (auto simp: new_col_def sub_special_def underscore_word decimal_word)
  from c have "c \<in> set (sub_spaces (strip (lower s)))"
    by (simp add: new_col_def sub_special_def)
  then have "c = CHR ''_'' \<or> c \<in> set (strip (lower s))"
    using set_sub_spaces by fastforce
  then have "c = CHR ''_'' \<or> c \<in> set (lower s)"
    using set_strip by fastforce
  with w show ?thesis by (simp add: lower_def)
qed

lemma lower_ascii_ident:
  "code_point c < 128 \<Longrightarrow> is_word (lower_char c) \<Longrightarrow> ident_char (lower_char c)"
  by (auto simp: lower_char_def is_word_def ident_char_def code_point_def Let_def split: if_splits)

lemma underscore_ident: "ident_char CHR ''_''"
  by (simp add: ident_char_def code_point_def)

lemma digit_ident: "d < 10 \<Longrightarrow> ident_char (digit_char d)"
  by (simp add: ident_char_def digit_char_def code_point_def Let_def)

lemma ident_word: "ident_char c \<Longrightarrow> is_word c"
  by (auto simp: ident_char_def is_word_def Let_def)

lemma str_nat_ident: "list_all ident_char (str_nat n)"
proof (induction n rule: str_nat.induct)
  case (1 n)
  show ?case
  proof (cases "n < 10")
    case True
    then show ?thesis by (subst str_nat.simps) (simp add: digit_ident)
  next
    case False
    with 1 show ?thesis by (subst str_nat.simps) (simp add: digit_ident)
  qed
qed

lemma new_col_word: "list_all is_word (new_col s)"
  using new_col_chars by (auto simp: list_all_iff)

lemma new_col_ident: "ascii s \<Longrightarrow> list_all ident_char (new_col s)"
  using new_col_chars lower_ascii_ident underscore_ident
  by (fastforce simp: list_all_iff ascii_def)

lemma suffixed_word:
  "i < length columns \<Longrightarrow> list_all is_word (suffixed (map new_col columns) i)"
proof -
  assume i: "i < length columns"
  let ?k = "count_list (take i (map new_col columns)) (new_col (columns ! i))"
  have "list_all is_word (str_nat ?k)"
    using str_nat_ident [of ?k] by (auto simp: list_all_iff ident_word)
  with i show ?thesis
    by (simp add: suffixed_def Let_def new_col_word underscore_word)
qed

lemma suffixed_ident:
  "i < length columns \<Longrightarrow> ascii (columns ! i) \<Longrightarrow>
   list_all ident_char (suffixed (map new_col columns) i)"
  using str_nat_ident [of "count_list (take i (map new_col columns)) (new_col (columns ! i))"]
  by (simp add: suffixed_def Let_def new_col_ident underscore_ident)

text \<open>
  What the second loop does, in closed form: for pairwise distinct raw labels, the name
  at every position is the canonical form of the raw label when no earlier label has
  the same canonical form, and that canonical form with \<open>_k\<close> appended when \<open>k\<close> earlier
  labels have it. The name consists of word characters, and of \<open>a-z\<close>, \<open>0-9\<close> and \<open>_\<close>
  when the raw label is ASCII.
\<close>

lemma suffix_rule:
  assumes "distinct columns" and "i < length columns"
  shows "standardize_column_names columns ! i = suffixed (map new_col columns) i \<and>
         list_all is_word (standardize_column_names columns ! i) \<and>
         (ascii (columns ! i) \<longrightarrow> list_all ident_char (standardize_column_names columns ! i))"
  using assms by (simp add: standardize_nth suffixed_word suffixed_ident)

text \<open>
  Claim C5: the normalized column names are pairwise distinct and match the identifier
  pattern. The code attempts this (its comments: ``Ensure name is valid and unique'',
  ``Handle duplicate column names after standardization'') and misses it: a suffixed
  name is never entered into \<open>seen\<close>, and nothing handles an empty canonical form. On
  the labels \<open>a\<close>, \<open>A\<close>, \<open>a_1\<close> the second label is renamed to \<open>a_1\<close>, which the third
  already is, so the names are not pairwise distinct, and cleaning a table with these
  labels raises \<open>ValueError\<close>; the single label \<open>!\<close> becomes the empty name, which does
  not match the pattern.
\<close>

theorem C5_names_not_unique:
  "standardize_column_names [''a'', ''A'', ''a_1''] = [''a'', ''a_1'', ''a_1''] \<and>
   \<not> distinct (standardize_column_names [''a'', ''A'', ''a_1'']) \<and>
   run_cleaner ref_lib
     [\<lparr>name = ''a'', dtype = Int64, vals = [VInt 1]\<rparr>,
      \<lparr>name = ''A'', dtype = Int64, vals = [VInt 2]\<rparr>,
      \<lparr>name = ''a_1'', dtype = Int64, vals = [VInt 3]\<rparr>] = Inl ValueError \<and>
   standardize_column_names [''!''] = [[]] \<and>
   \<not> list_all canonical_identifier (standardize_column_names [''!''])"
  by code_simp

section \<open>Properties of the Redundant Structure Analyzer\<close>

lemma equals_sym: "equals a b \<Longrightarrow> equals b a"
  by (auto simp: equals_def py_eq_def list_all2_conv_all_nth)

lemma equals_trans: "equals a b \<Longrightarrow> equals b c \<Longrightarrow> equals a c"
  by (auto simp: equals_def py_eq_def list_all2_conv_all_nth)


lemma scan_later_set:
  "name col1 \<notin> name ` set later \<Longrightarrow>
   set (scan_later col1 dr later) =
     set dr \<union> (if name col1 \<in> set dr then {} else name ` {c \<in> set later. equals col1 c})"
proof (induction later arbitrary: dr)
  case Nil
  then show ?case by simp
next
  case (Cons col2 later)
  then have ne: "name col1 \<noteq> name col2" and notin: "name col1 \<notin> name ` set later"
    by auto
  show ?case
    using Cons.IH [OF notin] ne by auto
qed

lemma earlier_equal_Cons:
  "earlier_equal (c # cs) = name ` {c' \<in> set cs. equals c c'} \<union> earlier_equal cs"
proof (intro set_eqI iffI)
  fix n
  assume "n \<in> earlier_equal (c # cs)"
  then obtain i j where ij: "i < j" "j < length (c # cs)" "equals ((c # cs) ! i) ((c # cs) ! j)"
    and n: "n = name ((c # cs) ! j)"
    by (auto simp: earlier_equal_def)
  from ij(1) obtain j' where j': "j = Suc j'" by (cases j) auto
  show "n \<in> name ` {c' \<in> set cs. equals c c'} \<union> earlier_equal cs"
  proof (cases i)
    case 0
    with ij j' n show ?thesis by auto
  next
    case (Suc i')
    with ij j' n have "i' < j'" "j' < length cs" "equals (cs ! i') (cs ! j')" "n = name (cs ! j')"
      by auto
    then show ?thesis by (auto simp: earlier_equal_def)
  qed
next
  fix n
  assume "n \<in> name ` {c' \<in> set cs. equals c c'} \<union> earlier_equal cs"
  then consider (a) c' where "c' \<in> set cs" "equals c c'" "n = name c'"
    | (b) "n \<in> earlier_equal cs" by auto
  then show "n \<in> earlier_equal (c # cs)"
  proof cases
    case a
    then obtain j where "j < length cs" "cs ! j = c'" by (auto simp: in_set_conv_nth)
    with a have "0 < Suc j" "Suc j < length (c # cs)" "equals ((c # cs) ! 0) ((c # cs) ! Suc j)"
      "n = name ((c # cs) ! Suc j)" by auto
    then show ?thesis unfolding earlier_equal_def by blast
  next
    case b
    then obtain i j where "i < j" "j < length cs" "equals (cs ! i) (cs ! j)" "n = name (cs ! j)"
      by (auto simp: earlier_equal_def)
    then have "Suc i < Suc j" "Suc j < length (c # cs)" "equals ((c # cs) ! Suc i) ((c # cs) ! Suc j)"
      "n = name ((c # cs) ! Suc j)" by auto
    then show ?thesis unfolding earlier_equal_def by blast
  qed
qed

lemma scan_columns_set:
  assumes "distinct (map name cols)"
    and "\<forall>c\<in>set cols. name c \<in> set dr \<longrightarrow> (\<forall>c'\<in>set cols. equals c c' \<longrightarrow> name c' \<in> set dr)"
  shows "set (scan_columns dr cols) = set dr \<union> earlier_equal cols"
  using assms
proof (induction cols arbitrary: dr)
  case Nil
  then show ?case by (simp add: earlier_equal_def)
next
  case (Cons c1 later)
  let ?drop1 = "scan_later c1 dr later"
  from Cons.prems(1) have notin: "name c1 \<notin> name ` set later" and dist: "distinct (map name later)"
    by auto
  have d1: "set ?drop1 = set dr \<union> (if name c1 \<in> set dr then {} else name ` {c \<in> set later. equals c1 c})"
    by (rule scan_later_set [OF notin])
  have closed: "\<forall>c\<in>set later. name c \<in> set ?drop1 \<longrightarrow> (\<forall>c'\<in>set later. equals c c' \<longrightarrow> name c' \<in> set ?drop1)"
  proof (intro ballI impI)
    fix c c'
    assume c: "c \<in> set later" and in1: "name c \<in> set ?drop1" and c': "c' \<in> set later" and eq: "equals c c'"
    show "name c' \<in> set ?drop1"
    proof (cases "name c \<in> set dr")
      case True
      have cin: "c \<in> set (c1 # later)" and cin': "c' \<in> set (c1 # later)"
        using c c' by simp_all
      from bspec [OF Cons.prems(2) cin] True
      have "\<forall>c'\<in>set (c1 # later). equals c c' \<longrightarrow> name c' \<in> set dr" by blast
      from bspec [OF this cin'] eq have "name c' \<in> set dr" by blast
      then show ?thesis by (simp add: d1)
    next
      case False
      with in1 d1 have nd: "name c1 \<notin> set dr" and "name c \<in> name ` {c \<in> set later. equals c1 c}"
        by (auto split: if_splits)
      then obtain c0 where c0: "c0 \<in> set later" "equals c1 c0" "name c0 = name c" by auto
      from dist have "inj_on name (set later)" by (simp add: distinct_map)
      with c0(1) c c0(3) have "c0 = c" by (auto dest: inj_onD)
      with c0(2) eq have "equals c1 c'" by (blast intro: equals_trans)
      with c' nd show ?thesis by (auto simp: d1)
    qed
  qed
  have "set (scan_columns dr (c1 # later)) = set ?drop1 \<union> earlier_equal later"
    using Cons.IH [OF dist closed] by simp
  also have "\<dots> = set dr \<union> earlier_equal (c1 # later)"
  proof (cases "name c1 \<in> set dr")
    case True
    with Cons.prems(2) have "name ` {c \<in> set later. equals c1 c} \<subseteq> set dr" by auto
    with True show ?thesis by (auto simp: d1 earlier_equal_Cons)
  next
    case False
    then show ?thesis by (auto simp: d1 earlier_equal_Cons)
  qed
  finally show ?case .
qed

lemma cols_to_drop_set:
  "distinct (map name df) \<Longrightarrow> set (cols_to_drop df) = earlier_equal df"
  by (simp add: cols_to_drop_def scan_columns_set)

lemma nth_name_inj:
  "distinct (map name df) \<Longrightarrow> i < length df \<Longrightarrow> j < length df \<Longrightarrow> name (df ! i) = name (df ! j) \<Longrightarrow> i = j"
  using nth_eq_iff_index_eq [of "map name df" i j] by simp

lemma dropped_iff:
  assumes "distinct (map name df)" and "j < length df"
  shows "name (df ! j) \<in> set (cols_to_drop df) \<longleftrightarrow> redundant_at df j"
proof -
  have "name (df ! j) \<in> earlier_equal df \<longleftrightarrow> (\<exists>i<j. equals (df ! i) (df ! j))"
  proof
    assume "name (df ! j) \<in> earlier_equal df"
    then obtain i k where ik: "i < k" "k < length df" "equals (df ! i) (df ! k)" "name (df ! j) = name (df ! k)"
      by (auto simp: earlier_equal_def)
    with assms have "j = k" by (auto dest: nth_name_inj)
    with ik show "\<exists>i<j. equals (df ! i) (df ! j)" by auto
  next
    assume "\<exists>i<j. equals (df ! i) (df ! j)"
    with assms(2) show "name (df ! j) \<in> earlier_equal df"
      unfolding earlier_equal_def by blast
  qed
  moreover have "redundant_at df j \<longleftrightarrow> (\<exists>i<j. equals (df ! i) (df ! j))"
  proof -
    have "set (take j df) = nth df ` {0..<j}"
      using assms(2) by (simp add: nth_image)
    then show ?thesis by (auto simp: redundant_at_def list_ex_iff)
  qed
  ultimately show ?thesis using assms(1) by (simp add: cols_to_drop_set)
qed


section \<open>Which columns the pipeline removes\<close>

lemma names_drop_duplicates [simp]: "map name (drop_duplicates df) = map name df"
  by (simp add: drop_duplicates_def Let_def comp_def)

lemma name_fill_missing_col [simp]: "name (fill_missing_col c) = name c"
  by (simp add: fill_missing_col_def)

lemma names_fill_missing [simp]: "map name (fill_missing df) = map name df"
  by (simp add: fill_missing_def comp_def)

lemma name_standardize_text_col [simp]: "name (standardize_text_col c) = name c"
  by (simp add: standardize_text_col_def)

lemma names_standardize_text [simp]: "map name (standardize_text tcols df) = map name df"
  by (induction df) (simp_all add: standardize_text_def)

lemma name_format_date_col [simp]: "name (format_date_col L c) = name c"
  by (simp add: format_date_col_def Let_def split: option.splits)

lemma names_format_dates [simp]: "map name (format_dates L df) = map name df"
  by (induction df) (simp_all add: format_dates_def)

lemma names_round_floats [simp]: "map name (round_floats L df) = map name df"
  by (induction df) (simp_all add: round_floats_def)

lemma name_consolidate_col [simp]: "name (consolidate_col L c) = name c"
  by (simp add: consolidate_col_def Let_def)

lemma names_fix_inconsistent [simp]: "map name (fix_inconsistent L tcols df) = map name df"
  by (induction df) (simp_all add: fix_inconsistent_def)

lemma names_before_rounding [simp]: "map name (before_rounding L df) = map name df"
  by (simp add: before_rounding_def Let_def)

lemma names_normalized: "map name (normalized L df) = map name df"
  by (simp add: normalized_def Let_def)

lemma length_normalized: "length (normalized L df) = length df"
  using names_normalized [of L df] by (metis length_map)

lemma filter_as_positions:
  "filter P xs = map (nth xs) (filter (\<lambda>j. P (xs ! j)) [0..<length xs])"
proof -
  have "filter P xs = filter P (map (nth xs) [0..<length xs])"
    by (simp add: map_nth)
  also have "\<dots> = map (nth xs) (filter (P \<circ> nth xs) [0..<length xs])"
    by (simp only: filter_map)
  finally show ?thesis by (simp add: comp_def)
qed

lemma remove_redundant_positions:
  assumes "distinct (map name df)"
  shows "remove_redundant df = map (nth df) (filter (\<lambda>j. \<not> redundant_at df j) [0..<length df])"
proof -
  have "filter (\<lambda>j. name (df ! j) \<notin> set (cols_to_drop df)) [0..<length df] =
        filter (\<lambda>j. \<not> redundant_at df j) [0..<length df]"
    by (rule filter_cong) (simp_all add: dropped_iff [OF assms])
  then show ?thesis
    unfolding remove_redundant_def
    by (subst filter_as_positions) simp
qed

text \<open>
  Claim C7, as the code has it. A table with a repeated column label makes the run raise
  \<open>ValueError\<close>. On every other table the pipeline returns, and its output consists of
  exactly those columns of the table as normalized by steps 1 to 4 that are not
  identical to an earlier normalized column, in their order; the normalized table has
  the labels of the input, column by column. So no column is removed for holding
  missing or sentinel values, and a column is removed only as the duplicate of an
  earlier column, the comparison being made after normalization.
\<close>

theorem C7_columns_removed_only_as_duplicates:
  "case clean_data L df of
     Inl e \<Rightarrow> \<not> distinct (map name df)
   | Inr out \<Rightarrow>
       out = map (nth (normalized L df))
               (filter (\<lambda>j. \<not> redundant_at (normalized L df) j) [0..<length df]) \<and>
       map name (normalized L df) = map name df"
proof (cases "distinct (map name df)")
  case True
  then have "distinct (map name (normalized L df))"
    by (simp add: names_normalized)
  from remove_redundant_positions [OF this] True show ?thesis
    by (simp add: clean_data_def clean_steps_def length_normalized names_normalized)
next
  case False
  then show ?thesis by (simp add: clean_data_def)
qed

text \<open>
  Claim C7 as stated fails on the table with the columns \<open>x = ["A"]\<close> and \<open>y = ["a"]\<close>:
  the column \<open>y\<close> is not identical to the earlier column in the input, yet it is absent
  from the output, because lowercasing makes the two columns identical before the
  duplicate columns are removed. And a table with the label \<open>x\<close> twice has no output.
\<close>

theorem C7_distinct_input_column_removed:
  "\<not> redundant_at
       [\<lparr>name = ''x'', dtype = Object, vals = [VStr ''A'']\<rparr>,
        \<lparr>name = ''y'', dtype = Object, vals = [VStr ''a'']\<rparr>] 1 \<and>
   run_cleaner ref_lib
       [\<lparr>name = ''x'', dtype = Object, vals = [VStr ''A'']\<rparr>,
        \<lparr>name = ''y'', dtype = Object, vals = [VStr ''a'']\<rparr>] =
     Inr [\<lparr>name = ''x'', dtype = Object, vals = [VStr ''a'']\<rparr>] \<and>
   run_cleaner ref_lib
       [\<lparr>name = ''x'', dtype = Object, vals = [VStr ''A'']\<rparr>,
        \<lparr>name = ''x'', dtype = Object, vals = [VStr ''b'']\<rparr>] = Inl ValueError"
  by code_simp



section \<open>The sentinel and genuine data\<close>

lemma null_not_in_non_null_strs: "null \<notin> set (non_null_strs xs)"
  by (induction xs rule: non_null_strs.induct) auto

lemma lower_strip_null_form:
  "strip (lower s) = null \<Longrightarrow> lower_strip (VStr s) = VStr null"
  by (simp add: lower_strip_def)

lemma lower_strip_fillna_NaN: "lower_strip (fillna VNaN) = VStr null"
  by (simp add: lower_strip_def fillna_def)

lemma fillna_id: "v \<noteq> VNaN \<Longrightarrow> fillna v = v"
  by (simp add: fillna_def)

lemma map_fillna_id: "VNaN \<notin> set xs \<Longrightarrow> map fillna xs = xs"
  by (induction xs) (auto simp: fillna_def)

text \<open>
  Claim C9. In a text column, a string whose lowercased and stripped form is \<open>null\<close>
  and a missing value in the same cell give the same column after the missing-value
  fill and the text pass, so no later step can tell them apart: the cell holds the
  sentinel, the sentinel is not among the values the fuzzy consolidation works on, and
  the final count of \<open>null\<close> cells counts it.
\<close>

theorem C9_sentinel_indistinguishable:
  assumes "dtype c = Object" and "i < length (vals c)" and "strip (lower s) = null"
  shows "standardize_text_col (fill_missing_col (c\<lparr>vals := (vals c)[i := VStr s]\<rparr>)) =
           standardize_text_col (fill_missing_col (c\<lparr>vals := (vals c)[i := VNaN]\<rparr>)) \<and>
         vals (standardize_text_col (fill_missing_col (c\<lparr>vals := (vals c)[i := VStr s]\<rparr>))) ! i = VStr null \<and>
         null \<notin> set (unique_vals (standardize_text_col (fill_missing_col (c\<lparr>vals := (vals c)[i := VStr s]\<rparr>)))) \<and>
         0 < null_count [standardize_text_col (fill_missing_col (c\<lparr>vals := (vals c)[i := VStr s]\<rparr>))]"
proof -
  let ?d = "c\<lparr>vals := (vals c)[i := VStr s]\<rparr>"
  let ?m = "c\<lparr>vals := (vals c)[i := VNaN]\<rparr>"
  have ne: "vals c \<noteq> []" using assms(2) by auto
  have m: "standardize_text_col (fill_missing_col ?m) =
             c\<lparr>vals := map (lower_strip \<circ> fillna) ((vals c)[i := VNaN])\<rparr>"
    using assms(1,2) ne
    by (simp add: fill_missing_col_def isna_any_def is_numeric_dtype_def standardize_text_col_def
        set_update_memI)
  have d: "standardize_text_col (fill_missing_col ?d) =
             c\<lparr>vals := map (lower_strip \<circ> fillna) ((vals c)[i := VStr s])\<rparr>"
  proof (cases "VNaN \<in> set ((vals c)[i := VStr s])")
    case True
    then show ?thesis
      using assms(1) ne
      by (simp add: fill_missing_col_def isna_any_def is_numeric_dtype_def standardize_text_col_def)
  next
    case False
    then have "map (lower_strip \<circ> fillna) ((vals c)[i := VStr s]) = map lower_strip ((vals c)[i := VStr s])"
      using map_fillna_id [OF False] by (metis map_map)
    with False show ?thesis
      using ne by (simp add: fill_missing_col_def isna_any_def standardize_text_col_def)
  qed
  have cell: "lower_strip (fillna (VStr s)) = VStr null" "lower_strip (fillna VNaN) = VStr null"
    using assms(3) by (simp_all add: lower_strip_def fillna_def)
  have eq: "map (lower_strip \<circ> fillna) ((vals c)[i := VStr s]) = map (lower_strip \<circ> fillna) ((vals c)[i := VNaN])"
    by (simp add: map_update cell)
  have at: "map (lower_strip \<circ> fillna) ((vals c)[i := VStr s]) ! i = VStr null"
    using assms(2) cell by simp
  then have "VStr null \<in> set (map (lower_strip \<circ> fillna) ((vals c)[i := VStr s]))"
    using assms(2) by (metis length_list_update length_map nth_mem)
  then have "count_list (map (lower_strip \<circ> fillna) ((vals c)[i := VStr s])) (VStr null) \<noteq> 0"
    by (simp only: count_list_0_iff not_not)
  then have cnt: "0 < count_list (map (lower_strip \<circ> fillna) ((vals c)[i := VStr s])) (VStr null)"
    by simp
  show ?thesis
    unfolding d m using eq at cnt
    by (simp add: unique_vals_def null_not_in_non_null_strs null_count_def)
qed

theorem C9_sentinel_indistinguishable_witness:
  "dtype \<lparr>name = ''city'', dtype = Object, vals = [VStr ''boston'', VStr ''x'']\<rparr> = Object \<and>
   1 < length (vals \<lparr>name = ''city'', dtype = Object, vals = [VStr ''boston'', VStr ''x'']\<rparr>) \<and>
   strip (lower '' NULL '') = null \<and>
   standardize_text_col (fill_missing_col \<lparr>name = ''city'', dtype = Object, vals = [VStr ''boston'', VStr '' NULL '']\<rparr>) =
     standardize_text_col (fill_missing_col \<lparr>name = ''city'', dtype = Object, vals = [VStr ''boston'', VNaN]\<rparr>) \<and>
   vals (standardize_text_col (fill_missing_col \<lparr>name = ''city'', dtype = Object, vals = [VStr ''boston'', VStr '' NULL '']\<rparr>)) =
     [VStr ''boston'', VStr ''null'']"
proof -
  let ?c = "\<lparr>name = ''city'', dtype = Object, vals = [VStr ''boston'', VStr ''x'']\<rparr>"
  have a: "dtype ?c = Object" by simp
  have b: "1 < length (vals ?c)" by simp
  have c: "strip (lower '' NULL '') = null" by code_simp
  have v: "vals (standardize_text_col (fill_missing_col \<lparr>name = ''city'', dtype = Object, vals = [VStr ''boston'', VStr '' NULL '']\<rparr>)) =
     [VStr ''boston'', VStr ''null'']" by code_simp
  from C9_sentinel_indistinguishable [OF a b c] a b c v show ?thesis by simp
qed

section \<open>The caller's DataFrame\<close>

text \<open>
  Claim C8. When the cleaner is constructed from a DataFrame of the caller, the object
  the caller holds is the same table after the construction and after the cleaning run,
  whether the run returns or raises: the cleaner works on a copy at another address.
\<close>

theorem C8_caller_dataframe_unchanged:
  assumes "wf_heap h" and "init_from_df h d = Some (self, h1)"
    and "clean_data_inplace L self h1 = (r, h2)"
  shows "objs h1 d = objs h d \<and> objs h2 d = objs h d \<and> self_df self \<noteq> d"
proof -
  from assms(2) obtain df where df: "objs h d = Some df"
    by (auto simp: init_from_df_def df_copy_def split: option.splits)
  with assms(1) have lt: "d < next_addr h" by (auto simp: wf_heap_def)
  from assms(2) df have self: "self_df self = next_addr h"
    by (auto simp: init_from_df_def df_copy_def split: option.splits)
  from assms(2) df lt have h1: "objs h1 d = objs h d"
    by (auto simp: init_from_df_def df_copy_def update_df_def split: option.splits)
  from assms(3) self lt have "objs h2 d = objs h1 d"
    by (auto simp: clean_data_inplace_def update_df_def split: option.splits sum.splits)
  with h1 self lt show ?thesis by simp
qed

theorem C8_caller_dataframe_unchanged_witness:
  "objs (snd (clean_data_inplace ref_lib \<lparr>self_df = 1\<rparr>
          (snd (the (init_from_df
             \<lparr>objs = [0 \<mapsto> [\<lparr>name = ''X'', dtype = Object, vals = [VStr ''A'', VNaN]\<rparr>]], next_addr = 1\<rparr> 0))))) 0 =
     Some [\<lparr>name = ''X'', dtype = Object, vals = [VStr ''A'', VNaN]\<rparr>] \<and>
   objs (snd (clean_data_inplace ref_lib \<lparr>self_df = 1\<rparr>
          (snd (the (init_from_df
             \<lparr>objs = [0 \<mapsto> [\<lparr>name = ''X'', dtype = Object, vals = [VStr ''A'', VNaN]\<rparr>]], next_addr = 1\<rparr> 0))))) 1 =
     Some [\<lparr>name = ''x'', dtype = Object, vals = [VStr ''a'', VStr ''null'']\<rparr>]"
proof -
  let ?t = "[\<lparr>name = ''X'', dtype = Object, vals = [VStr ''A'', VNaN]\<rparr>]"
  let ?h = "\<lparr>objs = [0 \<mapsto> ?t], next_addr = 1\<rparr>"
  define h1 where "h1 = snd (the (init_from_df ?h 0))"
  define r where "r = fst (clean_data_inplace ref_lib \<lparr>self_df = 1\<rparr> h1)"
  define h2 where "h2 = snd (clean_data_inplace ref_lib \<lparr>self_df = 1\<rparr> h1)"
  have wf: "wf_heap ?h" by (simp add: wf_heap_def)
  have i: "init_from_df ?h 0 = Some (\<lparr>self_df = 1\<rparr>, h1)"
    by (simp add: h1_def init_from_df_def df_copy_def)
  have c: "clean_data_inplace ref_lib \<lparr>self_df = 1\<rparr> h1 = (r, h2)"
    by (simp add: r_def h2_def)
  have rn: "rename_columns ?t = [\<lparr>name = ''x'', dtype = Object, vals = [VStr ''A'', VNaN]\<rparr>]"
    by code_simp
  have cl: "clean_data ref_lib [\<lparr>name = ''x'', dtype = Object, vals = [VStr ''A'', VNaN]\<rparr>] =
      Inr [\<lparr>name = ''x'', dtype = Object, vals = [VStr ''a'', VStr ''null'']\<rparr>]"
    by code_simp
  have o1: "objs h1 1 = Some [\<lparr>name = ''x'', dtype = Object, vals = [VStr ''A'', VNaN]\<rparr>]"
    by (simp add: h1_def init_from_df_def df_copy_def update_df_def rn)
  from o1 have o1': "objs h1 (Suc 0) = Some [\<lparr>name = ''x'', dtype = Object, vals = [VStr ''A'', VNaN]\<rparr>]"
    by simp
  have o2: "objs h2 1 = Some [\<lparr>name = ''x'', dtype = Object, vals = [VStr ''a'', VStr ''null'']\<rparr>]"
    by (simp add: h2_def clean_data_inplace_def o1' cl update_df_def)
  from C8_caller_dataframe_unchanged [OF wf i c] have "objs h2 0 = objs ?h 0" by simp
  then have "objs h2 0 = Some ?t" by simp
  with o2 show ?thesis by (simp add: h2_def h1_def)
qed

section \<open>Properties of the passes of steps 2 to 4, column by column\<close>

lemma length_drop_duplicates [simp]: "length (drop_duplicates df) = length df"
  by (simp add: drop_duplicates_def Let_def)

lemma length_fill_missing [simp]: "length (fill_missing df) = length df"
  by (simp add: fill_missing_def)

lemma length_standardize_text [simp]: "length (standardize_text tcols df) = length df"
  by (simp add: standardize_text_def)

lemma length_format_dates [simp]: "length (format_dates L df) = length df"
  by (simp add: format_dates_def)

lemma length_round_floats [simp]: "length (round_floats L df) = length df"
  by (simp add: round_floats_def)

lemma length_fix_inconsistent [simp]: "length (fix_inconsistent L tcols df) = length df"
  by (simp add: fix_inconsistent_def)

lemma length_before_rounding [simp]: "length (before_rounding L df) = length df"
  by (simp add: before_rounding_def Let_def)

lemma nth_fill_missing: "j < length df \<Longrightarrow> fill_missing df ! j = fill_missing_col (df ! j)"
  by (simp add: fill_missing_def)

lemma nth_standardize_text:
  "j < length df \<Longrightarrow> standardize_text tcols df ! j =
     (if name (df ! j) \<in> set tcols then standardize_text_col (df ! j) else df ! j)"
  by (simp add: standardize_text_def)

lemma nth_format_dates:
  "j < length df \<Longrightarrow> format_dates L df ! j =
     (if is_date_col (name (df ! j)) then format_date_col L (df ! j) else df ! j)"
  by (simp add: format_dates_def)

lemma nth_round_floats:
  "j < length df \<Longrightarrow> round_floats L df ! j =
     (if dtype (df ! j) = Float64 then (df ! j)\<lparr>vals := map (round_cell L) (vals (df ! j))\<rparr> else df ! j)"
  by (simp add: round_floats_def)

lemma nth_fix_inconsistent:
  "j < length df \<Longrightarrow> fix_inconsistent L tcols df ! j =
     (if is_cat_col tcols (df ! j) then consolidate_col L (df ! j) else df ! j)"
  by (simp add: fix_inconsistent_def)

lemma dtype_standardize_text_col [simp]: "dtype (standardize_text_col c) = dtype c"
  by (simp add: standardize_text_col_def)

lemma dtype_format_date_col:
  "dtype (format_date_col L c) = dtype c \<or> dtype (format_date_col L c) = Object"
  by (simp add: format_date_col_def Let_def split: option.splits)

lemma fill_missing_col_cases:
  "fill_missing_col c = c \<and> \<not> isna_any c \<or>
   fill_missing_col c = c\<lparr>dtype := Object, vals := map fillna (vals c)\<rparr> \<and> isna_any c"
proof (cases "isna_any c")
  case True
  then show ?thesis
    by (cases "dtype c") (simp_all add: fill_missing_col_def is_numeric_dtype_def)
next
  case False
  then show ?thesis by (simp add: fill_missing_col_def)
qed

lemma in_text_cols:
  assumes "distinct (map name df)" and "j < length df"
  shows "name (df ! j) \<in> set (text_cols df) \<longleftrightarrow> dtype (df ! j) = Object"
proof
  assume "name (df ! j) \<in> set (text_cols df)"
  then obtain c where c: "c \<in> set df" "dtype c = Object" "name c = name (df ! j)"
    by (auto simp: text_cols_def)
  then obtain i where i: "i < length df" "df ! i = c" by (auto simp: in_set_conv_nth)
  with c assms have "i = j" by (auto dest: nth_name_inj)
  with i c show "dtype (df ! j) = Object" by simp
next
  assume "dtype (df ! j) = Object"
  with assms(2) show "name (df ! j) \<in> set (text_cols df)"
    by (auto simp: text_cols_def)
qed

lemma set_py_unique: "set (py_unique seen xs) \<subseteq> set xs"
  by (induction xs arbitrary: seen) auto

lemma non_null_strs_empty:
  "(\<And>s. VStr s \<in> set xs \<Longrightarrow> s = null) \<Longrightarrow> non_null_strs xs = []"
  by (induction xs rule: non_null_strs.induct) auto

lemma lower_strip_numeric:
  "fits dt v \<Longrightarrow> dt \<noteq> Object \<Longrightarrow> lower_strip (fillna v) = fillna v"
  by (cases dt; cases v) (simp_all add: lower_strip_def fillna_def)

lemma fillna_numeric_str:
  "fits dt v \<Longrightarrow> dt \<noteq> Object \<Longrightarrow> fillna v = VStr s \<Longrightarrow> s = null"
  by (cases dt; cases v) (simp_all add: fillna_def)

lemma name_nth_eq:
  "map name xs = map name ys \<Longrightarrow> j < length xs \<Longrightarrow> name (xs ! j) = name (ys ! j)"
  by (metis length_map nth_map)

lemma rounded_column:
  assumes "distinct (map name df)" and "j < length df"
    and "dtype (before_rounding L df ! j) = Float64"
  shows "normalized L df ! j =
           (before_rounding L df ! j)\<lparr>vals := map (round_cell L) (vals (before_rounding L df ! j))\<rparr>"
proof -
  let ?df2 = "fill_missing (drop_duplicates df)"
  let ?tcols = "text_cols ?df2"
  let ?c2 = "?df2 ! j"
  let ?c3 = "before_rounding L df ! j"
  have d2: "distinct (map name ?df2)" using assms(1) by simp
  have j2: "j < length ?df2" using assms(2) by simp
  let ?ct = "standardize_text ?tcols ?df2 ! j"
  have c3: "?c3 = (if is_date_col (name ?ct) then format_date_col L ?ct else ?ct)"
    using assms(2) by (simp add: before_rounding_def Let_def nth_format_dates)
  have "dtype ?ct = Float64"
    using assms(3) dtype_format_date_col [of L ?ct] unfolding c3 by (auto split: if_splits)
  then have "dtype ?c2 = Float64"
    using j2 by (simp add: nth_standardize_text split: if_splits)
  then have notin: "name ?c2 \<notin> set ?tcols"
    using in_text_cols [OF d2 j2] by simp
  have n3: "name ?c3 = name ?c2"
    using assms(2) by (intro name_nth_eq) simp_all
  let ?r = "round_floats L (before_rounding L df) ! j"
  have r: "?r = ?c3\<lparr>vals := map (round_cell L) (vals ?c3)\<rparr>"
    using assms(2,3) by (simp add: nth_round_floats)
  then have "name ?r = name ?c2" using n3 by simp
  with notin have "\<not> is_cat_col ?tcols ?r" by (simp add: is_cat_col_def)
  then have "normalized L df ! j = ?r"
    using assms(2) by (simp add: normalized_def Let_def nth_fix_inconsistent)
  with r show ?thesis by simp
qed

lemma unrounded_column:
  assumes "distinct (map name df)" and "j < length df"
    and num: "is_numeric_dtype (drop_duplicates df ! j)" and na: "isna_any (drop_duplicates df ! j)"
    and wf: "wf_column (drop_duplicates df ! j)" and nd: "\<not> is_date_col (name (drop_duplicates df ! j))"
  shows "normalized L df ! j =
           (drop_duplicates df ! j)\<lparr>dtype := Object, vals := map fillna (vals (drop_duplicates df ! j))\<rparr>"
proof -
  let ?c1 = "drop_duplicates df ! j"
  let ?df2 = "fill_missing (drop_duplicates df)"
  let ?tcols = "text_cols ?df2"
  let ?c2 = "?c1\<lparr>dtype := Object, vals := map fillna (vals ?c1)\<rparr>"
  have d2: "distinct (map name ?df2)" using assms(1) by simp
  have j1: "j < length (drop_duplicates df)" and j2: "j < length ?df2" using assms(2) by simp_all
  have c2: "?df2 ! j = ?c2"
    using j1 num na by (simp add: nth_fill_missing fill_missing_col_def)
  have dt: "dtype ?c1 \<noteq> Object" using num by (auto simp: is_numeric_dtype_def)
  have fit: "\<And>v. v \<in> set (vals ?c1) \<Longrightarrow> fits (dtype ?c1) v"
    using wf by (simp add: wf_column_def list_all_iff)
  have ne: "vals ?c1 \<noteq> []" using na by (auto simp: isna_any_def)
  have "\<And>v. v \<in> set (vals ?c1) \<Longrightarrow> lower_strip (fillna v) = fillna v"
    using fit dt lower_strip_numeric by blast
  then have "map lower_strip (map fillna (vals ?c1)) = map fillna (vals ?c1)"
    by simp
  then have stx: "standardize_text_col ?c2 = ?c2"
    using ne by (simp add: standardize_text_col_def)
  have intc: "name ?c2 \<in> set ?tcols"
    using in_text_cols [OF d2 j2] c2 by simp
  have ct: "standardize_text ?tcols ?df2 ! j = ?c2"
    using j2 intc stx c2 by (simp add: nth_standardize_text)
  have c3: "before_rounding L df ! j = ?c2"
    using assms(2) nd ct by (simp add: before_rounding_def Let_def nth_format_dates)
  have r: "round_floats L (before_rounding L df) ! j = ?c2"
    using assms(2) c3 by (simp add: nth_round_floats)
  have strs: "\<And>s. VStr s \<in> set (map fillna (vals ?c1)) \<Longrightarrow> s = null"
  proof -
    fix s
    assume "VStr s \<in> set (map fillna (vals ?c1))"
    then obtain v where v: "v \<in> set (vals ?c1)" "fillna v = VStr s" by auto
    from fillna_numeric_str [OF fit [OF v(1)] dt v(2)] show "s = null" .
  qed
  have "\<And>s. VStr s \<in> set (py_unique [] (filter (\<lambda>v. v \<noteq> VNaN) (map fillna (vals ?c1)))) \<Longrightarrow> s = null"
  proof -
    fix s
    assume "VStr s \<in> set (py_unique [] (filter (\<lambda>v. v \<noteq> VNaN) (map fillna (vals ?c1))))"
    then have "VStr s \<in> set (filter (\<lambda>v. v \<noteq> VNaN) (map fillna (vals ?c1)))"
      using set_py_unique by blast
    then have "VStr s \<in> set (map fillna (vals ?c1))" by simp
    then show "s = null" by (rule strs)
  qed
  then have "unique_vals ?c2 = []"
    by (simp add: unique_vals_def non_null_strs_empty)
  then have "consolidate_col L ?c2 = ?c2"
    by (simp add: consolidate_col_def)
  then have "normalized L df ! j = ?c2"
    using assms(2) r by (simp add: normalized_def Let_def nth_fix_inconsistent)
  then show ?thesis .
qed

text \<open>
  Claim C4, as the code has it. The rounding pass selects the columns by their storage
  type at that moment. In a table with distinct labels, a column that is float-typed
  when the rounding pass runs has every value rounded by the library and keeps these
  values through step 4. A numeric column that holds a missing value after the
  duplicate rows are dropped (and whose name is not a date candidate) has been made an
  object column by the fill: its missing values are the sentinel and its numbers are as
  they were, unrounded.
\<close>

theorem C4_rounding_by_storage_type:
  assumes "distinct (map name df)" and "j < length df"
  shows "(dtype (before_rounding L df ! j) = Float64 \<longrightarrow>
            normalized L df ! j =
              (before_rounding L df ! j)\<lparr>vals := map (round_cell L) (vals (before_rounding L df ! j))\<rparr>) \<and>
         (is_numeric_dtype (drop_duplicates df ! j) \<and> isna_any (drop_duplicates df ! j) \<and>
          wf_column (drop_duplicates df ! j) \<and> \<not> is_date_col (name (drop_duplicates df ! j)) \<longrightarrow>
            normalized L df ! j =
              (drop_duplicates df ! j)\<lparr>dtype := Object, vals := map fillna (vals (drop_duplicates df ! j))\<rparr>)"
  using rounded_column [OF assms] unrounded_column [OF assms] by blast

text \<open>
  Claim C4 as stated fails on its own scenario: for the float column \<open>[1.005, 2.0, None]\<close>
  the pipeline returns \<open>[1.005, 2.0, "null"]\<close>, the first value being the float nearest to
  1.005 as before and not 1.0.
\<close>

theorem C4_scenario_not_rounded:
  "run_cleaner ref_lib
     [\<lparr>name = ''x'', dtype = Float64,
       vals = [VFloat (1131529406376837 / 1125899906842624), VFloat 2, VNaN]\<rparr>] =
   Inr [\<lparr>name = ''x'', dtype = Object,
         vals = [VFloat (1131529406376837 / 1125899906842624), VFloat 2, VStr ''null'']\<rparr>] \<and>
   VFloat (1131529406376837 / 1125899906842624) \<noteq> VFloat 1"
  by code_simp

theorem C4_rounding_by_storage_type_witness:
  "dtype (before_rounding ref_lib
       [\<lparr>name = ''x'', dtype = Float64, vals = [VFloat (641 / 512), VFloat 2]\<rparr>] ! 0) = Float64 \<and>
   normalized ref_lib
       [\<lparr>name = ''x'', dtype = Float64, vals = [VFloat (641 / 512), VFloat 2]\<rparr>] ! 0 =
     \<lparr>name = ''x'', dtype = Float64, vals = [VFloat (5 / 4), VFloat 2]\<rparr> \<and>
   normalized ref_lib
       [\<lparr>name = ''x'', dtype = Float64,
         vals = [VFloat (1131529406376837 / 1125899906842624), VFloat 2, VNaN]\<rparr>] ! 0 =
     \<lparr>name = ''x'', dtype = Object,
        vals = [VFloat (1131529406376837 / 1125899906842624), VFloat 2, VStr ''null'']\<rparr>"
proof -
  let ?a = "[\<lparr>name = ''x'', dtype = Float64, vals = [VFloat (641 / 512), VFloat 2]\<rparr>]"
  let ?b = "[\<lparr>name = ''x'', dtype = Float64,
         vals = [VFloat (1131529406376837 / 1125899906842624), VFloat 2, VNaN]\<rparr>]"
  have da: "distinct (map name ?a)" and db: "distinct (map name ?b)" by simp_all
  have ja: "0 < length ?a" and jb: "0 < length ?b" by simp_all
  have fa: "dtype (before_rounding ref_lib ?a ! 0) = Float64" by code_simp
  have ra: "(before_rounding ref_lib ?a ! 0)\<lparr>vals := map (round_cell ref_lib) (vals (before_rounding ref_lib ?a ! 0))\<rparr> =
      \<lparr>name = ''x'', dtype = Float64, vals = [VFloat (5 / 4), VFloat 2]\<rparr>" by code_simp
  have pb: "is_numeric_dtype (drop_duplicates ?b ! 0) \<and> isna_any (drop_duplicates ?b ! 0) \<and>
          wf_column (drop_duplicates ?b ! 0) \<and> \<not> is_date_col (name (drop_duplicates ?b ! 0))"
    by code_simp
  have rb: "(drop_duplicates ?b ! 0)\<lparr>dtype := Object, vals := map fillna (vals (drop_duplicates ?b ! 0))\<rparr> =
      \<lparr>name = ''x'', dtype = Object,
        vals = [VFloat (1131529406376837 / 1125899906842624), VFloat 2, VStr ''null'']\<rparr>"
    by code_simp
  from C4_rounding_by_storage_type [OF da ja, of ref_lib] fa ra
  have A: "normalized ref_lib ?a ! 0 = \<lparr>name = ''x'', dtype = Float64, vals = [VFloat (5 / 4), VFloat 2]\<rparr>"
    by simp
  from C4_rounding_by_storage_type [OF db jb, of ref_lib] pb rb
  have B: "normalized ref_lib ?b ! 0 = \<lparr>name = ''x'', dtype = Object,
        vals = [VFloat (1131529406376837 / 1125899906842624), VFloat 2, VStr ''null'']\<rparr>"
    by simp
  from fa A B show ?thesis by blast
qed

section \<open>Properties of the date pass\<close>

lemma starts_with_append: "starts_with t (t @ r)"
  by (induction t) auto

lemma contains_append: "contains t (p @ t @ r)"
proof (induction p)
  case Nil
  show ?case by (cases "t @ r") (auto simp: starts_with_append dest: sym)
next
  case (Cons a p)
  then show ?case by simp
qed

lemma ends_with_contains: "ends_with t s \<Longrightarrow> contains t s"
proof -
  assume e: "ends_with t s"
  then have "s = take (length s - length t) s @ t @ []"
    by (simp add: ends_with_def) (metis append_take_drop_id)
  then show ?thesis using contains_append [of t "take (length s - length t) s" "[]"] by simp
qed

lemma date_candidate_is_date_col: "date_candidate col \<Longrightarrow> is_date_col col"
  by (auto simp: date_candidate_def is_date_col_def dest: ends_with_contains)

text \<open>
  Claim C3, as the code has it. For a date-candidate column, when the date parsing
  raises the column is left as it is. Otherwise the rate that decides is the number of
  parsed rows against the number of all rows of the column, the rows holding the
  sentinel included: when it exceeds 80%, every parsed row is set to the \<open>%Y-%m-%d\<close>
  rendering of its date and every other row, the sentinel among them, keeps its value;
  when it does not, the column is left as it is.
\<close>

theorem C3_date_rewrite_over_all_rows:
  assumes "j < length df" and "date_candidate (name (df ! j))"
  shows "case to_datetime L (vals (df ! j)) of
           None \<Rightarrow> format_dates L df ! j = df ! j
         | Some temp \<Rightarrow>
             (if 4 * length (vals (df ! j)) < 5 * notna_count temp (length (vals (df ! j)))
              then name (format_dates L df ! j) = name (df ! j) \<and>
                   length (vals (format_dates L df ! j)) = length (vals (df ! j)) \<and>
                   list_all
                     (\<lambda>i. vals (format_dates L df ! j) ! i =
                            (case temp i of Some t \<Rightarrow> VStr (strftime t) | None \<Rightarrow> vals (df ! j) ! i))
                     [0..<length (vals (df ! j))]
              else format_dates L df ! j = df ! j)"
proof -
  have d: "is_date_col (name (df ! j))"
    using assms(2) by (rule date_candidate_is_date_col)
  have f: "format_dates L df ! j = format_date_col L (df ! j)"
    using assms(1) d by (simp add: format_dates_def)
  show ?thesis
    unfolding f
    by (simp add: format_date_col_def Let_def format_date_cell_def list_all_iff split: option.splits)
qed

text \<open>
  Claim C3 as stated fails on a date-candidate column with four parseable dates and one
  sentinel: all of the non-sentinel values parse, which exceeds 80%, but four of the
  five rows is not more than 80%, and the column is left as it is.
\<close>

theorem C3_sentinel_rows_count:
  "date_candidate ''order_date'' \<and>
   non_sentinel_rate_exceeds
     (the (to_datetime ref_lib
        [VStr ''2020/01/05'', VStr ''2021/02/10'', VStr ''2022/03/15'', VStr ''2023/04/20'', VStr ''null'']))
     [VStr ''2020/01/05'', VStr ''2021/02/10'', VStr ''2022/03/15'', VStr ''2023/04/20'', VStr ''null''] \<and>
   format_dates ref_lib
     [\<lparr>name = ''order_date'', dtype = Object,
       vals = [VStr ''2020/01/05'', VStr ''2021/02/10'', VStr ''2022/03/15'', VStr ''2023/04/20'', VStr ''null'']\<rparr>] =
     [\<lparr>name = ''order_date'', dtype = Object,
       vals = [VStr ''2020/01/05'', VStr ''2021/02/10'', VStr ''2022/03/15'', VStr ''2023/04/20'', VStr ''null'']\<rparr>]"
  by code_simp

theorem C3_date_rewrite_over_all_rows_witness:
  "0 < length [\<lparr>name = ''created_at'', dtype = Object,
       vals = [VStr ''2020/01/05'', VStr ''2021/02/10'', VStr ''2022/03/15'', VStr ''2023/04/20'',
               VStr ''2024/05/25'', VStr ''null'']\<rparr>] \<and>
   date_candidate (name ([\<lparr>name = ''created_at'', dtype = Object,
       vals = [VStr ''2020/01/05'', VStr ''2021/02/10'', VStr ''2022/03/15'', VStr ''2023/04/20'',
               VStr ''2024/05/25'', VStr ''null'']\<rparr>] ! 0)) \<and>
   format_dates ref_lib [\<lparr>name = ''created_at'', dtype = Object,
       vals = [VStr ''2020/01/05'', VStr ''2021/02/10'', VStr ''2022/03/15'', VStr ''2023/04/20'',
               VStr ''2024/05/25'', VStr ''null'']\<rparr>] ! 0 =
     \<lparr>name = ''created_at'', dtype = Object,
       vals = [VStr ''2020-01-05'', VStr ''2021-02-10'', VStr ''2022-03-15'', VStr ''2023-04-20'',
               VStr ''2024-05-25'', VStr ''null'']\<rparr> \<and>
   (case to_datetime ref_lib (vals ([\<lparr>name = ''created_at'', dtype = Object,
       vals = [VStr ''2020/01/05'', VStr ''2021/02/10'', VStr ''2022/03/15'', VStr ''2023/04/20'',
               VStr ''2024/05/25'', VStr ''null'']\<rparr>] ! 0)) of
           None \<Rightarrow> format_dates ref_lib [\<lparr>name = ''created_at'', dtype = Object,
       vals = [VStr ''2020/01/05'', VStr ''2021/02/10'', VStr ''2022/03/15'', VStr ''2023/04/20'',
               VStr ''2024/05/25'', VStr ''null'']\<rparr>] ! 0 = [\<lparr>name = ''created_at'', dtype = Object,
       vals = [VStr ''2020/01/05'', VStr ''2021/02/10'', VStr ''2022/03/15'', VStr ''2023/04/20'',
               VStr ''2024/05/25'', VStr ''null'']\<rparr>] ! 0
         | Some temp \<Rightarrow>
             (if 4 * length (vals ([\<lparr>name = ''created_at'', dtype = Object,
       vals = [VStr ''2020/01/05'', VStr ''2021/02/10'', VStr ''2022/03/15'', VStr ''2023/04/20'',
               VStr ''2024/05/25'', VStr ''null'']\<rparr>] ! 0)) < 5 * notna_count temp (length (vals ([\<lparr>name = ''created_at'', dtype = Object,
       vals = [VStr ''2020/01/05'', VStr ''2021/02/10'', VStr ''2022/03/15'', VStr ''2023/04/20'',
               VStr ''2024/05/25'', VStr ''null'']\<rparr>] ! 0)))
              then name (format_dates ref_lib [\<lparr>name = ''created_at'', dtype = Object,
       vals = [VStr ''2020/01/05'', VStr ''2021/02/10'', VStr ''2022/03/15'', VStr ''2023/04/20'',
               VStr ''2024/05/25'', VStr ''null'']\<rparr>] ! 0) = name ([\<lparr>name = ''created_at'', dtype = Object,
       vals = [VStr ''2020/01/05'', VStr ''2021/02/10'', VStr ''2022/03/15'', VStr ''2023/04/20'',
               VStr ''2024/05/25'', VStr ''null'']\<rparr>] ! 0) \<and>
                   length (vals (format_dates ref_lib [\<lparr>name = ''created_at'', dtype = Object,
       vals = [VStr ''2020/01/05'', VStr ''2021/02/10'', VStr ''2022/03/15'', VStr ''2023/04/20'',
               VStr ''2024/05/25'', VStr ''null'']\<rparr>] ! 0)) = length (vals ([\<lparr>name = ''created_at'', dtype = Object,
       vals = [VStr ''2020/01/05'', VStr ''2021/02/10'', VStr ''2022/03/15'', VStr ''2023/04/20'',
               VStr ''2024/05/25'', VStr ''null'']\<rparr>] ! 0)) \<and>
                   list_all
                     (\<lambda>i. vals (format_dates ref_lib [\<lparr>name = ''created_at'', dtype = Object,
       vals = [VStr ''2020/01/05'', VStr ''2021/02/10'', VStr ''2022/03/15'', VStr ''2023/04/20'',
               VStr ''2024/05/25'', VStr ''null'']\<rparr>] ! 0) ! i =
                            (case temp i of Some t \<Rightarrow> VStr (strftime t) | None \<Rightarrow> vals ([\<lparr>name = ''created_at'', dtype = Object,
       vals = [VStr ''2020/01/05'', VStr ''2021/02/10'', VStr ''2022/03/15'', VStr ''2023/04/20'',
               VStr ''2024/05/25'', VStr ''null'']\<rparr>] ! 0) ! i))
                     [0..<length (vals ([\<lparr>name = ''created_at'', dtype = Object,
       vals = [VStr ''2020/01/05'', VStr ''2021/02/10'', VStr ''2022/03/15'', VStr ''2023/04/20'',
               VStr ''2024/05/25'', VStr ''null'']\<rparr>] ! 0))]
              else format_dates ref_lib [\<lparr>name = ''created_at'', dtype = Object,
       vals = [VStr ''2020/01/05'', VStr ''2021/02/10'', VStr ''2022/03/15'', VStr ''2023/04/20'',
               VStr ''2024/05/25'', VStr ''null'']\<rparr>] ! 0 = [\<lparr>name = ''created_at'', dtype = Object,
       vals = [VStr ''2020/01/05'', VStr ''2021/02/10'', VStr ''2022/03/15'', VStr ''2023/04/20'',
               VStr ''2024/05/25'', VStr ''null'']\<rparr>] ! 0))"
proof -
  have j: "0 < length [\<lparr>name = ''created_at'', dtype = Object,
       vals = [VStr ''2020/01/05'', VStr ''2021/02/10'', VStr ''2022/03/15'', VStr ''2023/04/20'',
               VStr ''2024/05/25'', VStr ''null'']\<rparr>]" by simp
  have c: "date_candidate (name ([\<lparr>name = ''created_at'', dtype = Object,
       vals = [VStr ''2020/01/05'', VStr ''2021/02/10'', VStr ''2022/03/15'', VStr ''2023/04/20'',
               VStr ''2024/05/25'', VStr ''null'']\<rparr>] ! 0))" by code_simp
  have e: "format_dates ref_lib [\<lparr>name = ''created_at'', dtype = Object,
       vals = [VStr ''2020/01/05'', VStr ''2021/02/10'', VStr ''2022/03/15'', VStr ''2023/04/20'',
               VStr ''2024/05/25'', VStr ''null'']\<rparr>] ! 0 =
     \<lparr>name = ''created_at'', dtype = Object,
       vals = [VStr ''2020-01-05'', VStr ''2021-02-10'', VStr ''2022-03-15'', VStr ''2023-04-20'',
               VStr ''2024-05-25'', VStr ''null'']\<rparr>" by code_simp
  show ?thesis
    by (rule conjI [OF j conjI [OF c conjI [OF e C3_date_rewrite_over_all_rows [OF j c, of ref_lib]]]])
qed

section \<open>Properties of the guard of the Value Consolidator\<close>

lemma non_null_strs_set: "set (non_null_strs xs) = {s. VStr s \<in> set xs \<and> s \<noteq> null}"
  by (induction xs rule: non_null_strs.induct) auto

lemma unique_strs:
  "distinct (non_null_strs (py_unique seen xs)) \<and>
   set (non_null_strs (py_unique seen xs)) = {s. VStr s \<in> set xs \<and> s \<noteq> null \<and> VStr s \<notin> set seen}"
proof (induction xs arbitrary: seen)
  case Nil
  show ?case by simp
next
  case (Cons v xs)
  show ?case
  proof (cases "cell_key v \<in> set seen")
    case True
    then have "\<And>s. v = VStr s \<Longrightarrow> VStr s \<in> set seen" by auto
    with True Cons.IH [of seen] show ?thesis by auto
  next
    case False
    note IH = Cons.IH [of "cell_key v # seen"]
    show ?thesis
    proof (cases v)
      case (VStr s)
      with False have ns: "VStr s \<notin> set seen" by simp
      from IH VStr have "s \<notin> set (non_null_strs (py_unique (VStr s # seen) xs))" by simp
      with False VStr IH ns show ?thesis by auto
    next
      case (VInt i)
      with False IH show ?thesis by auto
    next
      case (VFloat q)
      with False IH show ?thesis by auto
    next
      case VNaN
      with False IH show ?thesis by auto
    qed
  qed
qed

lemma length_unique_vals:
  "length (unique_vals c) = length (remdups (non_null_strs (vals c)))"
proof -
  let ?xs = "filter (\<lambda>v. v \<noteq> VNaN) (vals c)"
  have "set (non_null_strs (py_unique [] ?xs)) = set (non_null_strs (vals c))"
    using unique_strs [of "[]" ?xs] by (auto simp: non_null_strs_set)
  moreover have "distinct (non_null_strs (py_unique [] ?xs))"
    using unique_strs [of "[]" ?xs] by simp
  ultimately have "length (non_null_strs (py_unique [] ?xs)) = card (set (non_null_strs (vals c)))"
    by (metis distinct_card)
  then show ?thesis by (simp add: unique_vals_def length_remdups_card_conv)
qed

lemma cell_key_str: "cell_key v = VStr s \<longleftrightarrow> v = VStr s"
  by (cases v) auto

lemma nunique_card:
  "nunique c = card (cell_key ` {v \<in> set (vals c). v \<noteq> VNaN})"
  by (simp add: nunique_def length_remdups_card_conv)

lemma distinct_non_sentinel_card:
  "distinct_non_sentinel c = card (cell_key ` {v \<in> set (vals c). v \<noteq> VNaN \<and> v \<noteq> VStr null})"
  by (simp add: distinct_non_sentinel_def length_remdups_card_conv)

lemma nunique_counts_sentinel:
  "nunique c = distinct_non_sentinel c + (if VStr null \<in> set (vals c) then 1 else 0)"
proof -
  let ?A = "cell_key ` {v \<in> set (vals c). v \<noteq> VNaN}"
  let ?B = "cell_key ` {v \<in> set (vals c). v \<noteq> VNaN \<and> v \<noteq> VStr null}"
  have fin: "finite ?B" by simp
  have notin: "VStr null \<notin> ?B" by (auto simp: cell_key_str dest: sym)
  show ?thesis
  proof (cases "VStr null \<in> set (vals c)")
    case True
    have "?A = insert (VStr null) ?B"
    proof (intro set_eqI iffI)
      fix k assume "k \<in> ?A"
      then obtain v where v: "v \<in> set (vals c)" "v \<noteq> VNaN" "k = cell_key v" by auto
      show "k \<in> insert (VStr null) ?B"
      proof (cases "v = VStr null")
        case True with v show ?thesis by simp
      next
        case False with v show ?thesis by auto
      qed
    next
      fix k assume "k \<in> insert (VStr null) ?B"
      then consider "k = VStr null" | "k \<in> ?B" by auto
      then show "k \<in> ?A"
      proof cases
        case 1
        have "cell_key (VStr null) \<in> ?A" using True by (intro imageI) simp
        with 1 show ?thesis by simp
      next
        case 2 then show ?thesis by auto
      qed
    qed
    then have "card ?A = Suc (card ?B)" using fin notin by simp
    with True show ?thesis by (simp add: nunique_card distinct_non_sentinel_card)
  next
    case False
    then have "{v \<in> set (vals c). v \<noteq> VNaN} = {v \<in> set (vals c). v \<noteq> VNaN \<and> v \<noteq> VStr null}"
      by auto
    with False show ?thesis by (simp add: nunique_card distinct_non_sentinel_card)
  qed
qed

lemma strings_le_nunique:
  "length (remdups (non_null_strs (vals c))) \<le> nunique c"
proof -
  let ?S = "{s. VStr s \<in> set (vals c) \<and> s \<noteq> null}"
  let ?A = "cell_key ` {v \<in> set (vals c). v \<noteq> VNaN}"
  have sub: "VStr ` ?S \<subseteq> ?A"
  proof
    fix k assume "k \<in> VStr ` ?S"
    then obtain s where s: "VStr s \<in> set (vals c)" "k = VStr s" by auto
    then have "cell_key (VStr s) \<in> ?A" by (intro imageI) simp
    with s show "k \<in> ?A" by simp
  qed
  have "card ?S = card (VStr ` ?S)"
    by (simp add: card_image inj_on_def)
  also have "\<dots> \<le> card ?A"
    using sub by (intro card_mono) simp_all
  finally show ?thesis
    by (simp add: length_remdups_card_conv non_null_strs_set nunique_card)
qed

lemma consolidator_runs_iff:
  "consolidator_runs tcols c \<longleftrightarrow>
     name c \<in> set tcols \<and> 1 < length (remdups (non_null_strs (vals c))) \<and>
     distinct_non_sentinel c + (if VStr null \<in> set (vals c) then 1 else 0) < 50"
  using strings_le_nunique [of c] nunique_counts_sentinel [of c]
  by (auto simp: consolidator_runs_def is_cat_col_def length_unique_vals)

lemma replace_cell_Nil [simp]: "replace_cell [] v = v"
  by (cases v) (simp_all add: replace_cell_def)

lemma map_replace_cell_Nil [simp]: "map (replace_cell []) xs = xs"
  by (induction xs) simp_all

lemma consolidate_col_eq:
  "1 < length (unique_vals c) \<Longrightarrow>
   consolidate_col L c = c\<lparr>vals := map (replace_cell (find_changes L c (unique_vals c))) (vals c)\<rparr>"
  by (cases "find_changes L c (unique_vals c) = []") (simp_all add: consolidate_col_def Let_def)

lemma consolidate_col_skip:
  "length (unique_vals c) \<le> 1 \<Longrightarrow> consolidate_col L c = c"
  by (simp add: consolidate_col_def Let_def)

text \<open>
  Claim C2, as the code has it. The consolidation loop runs on a column exactly when the
  column is among the text columns, holds more than one distinct non-sentinel string,
  and has fewer than 50 distinct values, the sentinel counted as one of them when it is
  present. A column on which the loop runs is rewritten by the changes the loop finds;
  every other column is left as it is by this pass.
\<close>

theorem C2_consolidator_band:
  assumes "j < length df"
  shows "(consolidator_runs tcols (df ! j) \<longleftrightarrow>
            name (df ! j) \<in> set tcols \<and> 1 < length (remdups (non_null_strs (vals (df ! j)))) \<and>
            distinct_non_sentinel (df ! j) + (if VStr null \<in> set (vals (df ! j)) then 1 else 0) < 50) \<and>
         fix_inconsistent L tcols df ! j =
           (if consolidator_runs tcols (df ! j)
            then (df ! j)\<lparr>vals := map (replace_cell (find_changes L (df ! j) (unique_vals (df ! j)))) (vals (df ! j))\<rparr>
            else df ! j)"
proof -
  have "fix_inconsistent L tcols df ! j =
          (if is_cat_col tcols (df ! j) then consolidate_col L (df ! j) else df ! j)"
    using assms by (simp add: fix_inconsistent_def)
  then have "fix_inconsistent L tcols df ! j =
           (if consolidator_runs tcols (df ! j)
            then (df ! j)\<lparr>vals := map (replace_cell (find_changes L (df ! j) (unique_vals (df ! j)))) (vals (df ! j))\<rparr>
            else df ! j)"
    using consolidate_col_eq [of "df ! j" L] consolidate_col_skip [of "df ! j" L]
    by (cases "1 < length (unique_vals (df ! j))") (simp_all add: consolidator_runs_def)
  with consolidator_runs_iff [of tcols "df ! j"] show ?thesis by blast
qed

text \<open>
  Claim C2 as stated fails on a text column with 49 distinct non-sentinel values and the
  sentinel: 49 is inside the band, but the column counts 50 distinct values and is
  skipped, its near-duplicate values left as they are. It also fails on an object
  column with the numbers 1.0 and 2.0 and the sentinel: two distinct non-sentinel
  values, none of them a string, and the loop does not run.
\<close>

theorem C2_band_counts_sentinel:
  "name wide_column \<in> set [''city''] \<and> dtype wide_column = Object \<and>
   1 < distinct_non_sentinel wide_column \<and> distinct_non_sentinel wide_column < 50 \<and>
   \<not> consolidator_runs [''city''] wide_column \<and>
   fix_inconsistent ref_lib [''city''] [wide_column] = [wide_column] \<and>
   1 < distinct_non_sentinel \<lparr>name = ''price'', dtype = Object, vals = [VFloat 1, VFloat 2, VStr ''null'']\<rparr> \<and>
   distinct_non_sentinel \<lparr>name = ''price'', dtype = Object, vals = [VFloat 1, VFloat 2, VStr ''null'']\<rparr> < 50 \<and>
   \<not> consolidator_runs [''price'']
       \<lparr>name = ''price'', dtype = Object, vals = [VFloat 1, VFloat 2, VStr ''null'']\<rparr>"
  by code_simp

theorem C2_consolidator_band_witness:
  "0 < length [\<lparr>name = ''city'', dtype = Object,
        vals = [VStr ''new york'', VStr ''new yrok'', VStr ''new yrok'', VStr ''boston'', VStr ''null'']\<rparr>] \<and>
   consolidator_runs [''city'']
     ([\<lparr>name = ''city'', dtype = Object,
        vals = [VStr ''new york'', VStr ''new yrok'', VStr ''new yrok'', VStr ''boston'', VStr ''null'']\<rparr>] ! 0) \<and>
   fix_inconsistent ref_lib [''city'']
     [\<lparr>name = ''city'', dtype = Object,
        vals = [VStr ''new york'', VStr ''new yrok'', VStr ''new yrok'', VStr ''boston'', VStr ''null'']\<rparr>] ! 0 =
     \<lparr>name = ''city'', dtype = Object,
        vals = [VStr ''new yrok'', VStr ''new yrok'', VStr ''new yrok'', VStr ''boston'', VStr ''null'']\<rparr>"
proof -
  let ?df = "[\<lparr>name = ''city'', dtype = Object,
        vals = [VStr ''new york'', VStr ''new yrok'', VStr ''new yrok'', VStr ''boston'', VStr ''null'']\<rparr>]"
  have j: "0 < length ?df" by simp
  have r: "name (?df ! 0) \<in> set [''city''] \<and> 1 < length (remdups (non_null_strs (vals (?df ! 0)))) \<and>
            distinct_non_sentinel (?df ! 0) + (if VStr null \<in> set (vals (?df ! 0)) then 1 else 0) < 50"
    by code_simp
  have e: "(?df ! 0)\<lparr>vals := map (replace_cell (find_changes ref_lib (?df ! 0) (unique_vals (?df ! 0)))) (vals (?df ! 0))\<rparr> =
     \<lparr>name = ''city'', dtype = Object,
        vals = [VStr ''new yrok'', VStr ''new yrok'', VStr ''new yrok'', VStr ''boston'', VStr ''null'']\<rparr>"
    by code_simp
  note t = C2_consolidator_band [OF j, of "[''city'']" ref_lib]
  from t r have run: "consolidator_runs [''city''] (?df ! 0)" by blast
  from t run have "fix_inconsistent ref_lib [''city''] ?df ! 0 =
      (?df ! 0)\<lparr>vals := map (replace_cell (find_changes ref_lib (?df ! 0) (unique_vals (?df ! 0)))) (vals (?df ! 0))\<rparr>"
    by (simp only: if_True)
  with e have "fix_inconsistent ref_lib [''city''] ?df ! 0 =
     \<lparr>name = ''city'', dtype = Object,
        vals = [VStr ''new yrok'', VStr ''new yrok'', VStr ''new yrok'', VStr ''boston'', VStr ''null'']\<rparr>"
    by (simp only:)
  with j run show ?thesis by blast
qed

section \<open>Properties of the Value Consolidator\<close>






end
